theory Spec2Isabelle
  imports Main "HOL-Library.Finite_Map"
begin

section \<open>The container \<open>msa::OrderedMap<keyType, T>\<close>\<close>

text \<open>
  The class of \<^verbatim>\<open>ofxMSAOrderedMap.h\<close> has two private members: \<^verbatim>\<open>_map\<close>, a
  \<^verbatim>\<open>std::map<keyType, pair<T, int>>\<close> holding each value with its index, and \<^verbatim>\<open>_vector\<close>,
  a \<^verbatim>\<open>std::vector<keyType>\<close> holding the keys in order. A \<^verbatim>\<open>std::map\<close> is a finite map
  with unique keys, hence \<open>fmap\<close>; its \<^verbatim>\<open>size()\<close> is the cardinality of its domain.
  The C++ \<^verbatim>\<open>int\<close> of indices is modelled by \<open>int\<close>: sizes are taken to stay below
  \<open>2^31\<close>, so that no conversion between \<^verbatim>\<open>int\<close> and \<^verbatim>\<open>size_t\<close> wraps.
\<close>

record ('k, 'v) OrderedMap =
  om_map :: "('k, 'v \<times> int) fmap"
  om_vector :: "'k list"

text \<open>
  The exceptions the code can raise: \<^verbatim>\<open>std::invalid_argument\<close> and \<^verbatim>\<open>std::runtime_error\<close>
  with their messages, \<^verbatim>\<open>std::out_of_range\<close> from \<^verbatim>\<open>vector::at\<close> and \<^verbatim>\<open>map::at\<close>.
  \<open>undefined_behaviour\<close> marks a call of \<^verbatim>\<open>vector::erase\<close> with an iterator outside the
  vector, which C++ leaves undefined.
\<close>

datatype error =
    invalid_argument string
  | runtime_error string
  | out_of_range
  | undefined_behaviour

text \<open>
  The first three are C++ exceptions, classes derived from \<^verbatim>\<open>std::exception\<close>: a caller can
  catch them and go on using the container, in the state the throwing call left.
\<close>

fun catchable :: "error \<Rightarrow> bool" where
  "catchable (invalid_argument msg) = True"
| "catchable (runtime_error msg) = True"
| "catchable out_of_range = True"
| "catchable undefined_behaviour = False"

text \<open>The default-constructed container.\<close>

definition empty_map :: "('k, 'v) OrderedMap" where
  "empty_map = \<lparr>om_map = fmempty, om_vector = []\<rparr>"

text \<open>\<^verbatim>\<open>exists\<close>: \<^verbatim>\<open>_map.find(key) != _map.end()\<close>.\<close>

definition exists :: "('k, 'v) OrderedMap \<Rightarrow> 'k \<Rightarrow> bool" where
  "exists s key = (fmlookup (om_map s) key \<noteq> None)"

text \<open>\<^verbatim>\<open>validateIndex\<close> and \<^verbatim>\<open>validateKey\<close> throw or return nothing.\<close>

definition validateIndex :: "('k, 'v) OrderedMap \<Rightarrow> int \<Rightarrow> string \<Rightarrow> error + unit" where
  "validateIndex s index errorMessage =
     (if index < 0 \<or> index \<ge> int (length (om_vector s))
      then Inl (invalid_argument (errorMessage @ '' - index doesn't exist''))
      else Inr ())"

definition validateKey :: "('k, 'v) OrderedMap \<Rightarrow> 'k \<Rightarrow> string \<Rightarrow> error + unit" where
  "validateKey s key errorMessage =
     (if \<not> exists s key
      then Inl (invalid_argument (errorMessage @ '' - key doesn't exist''))
      else Inr ())"

text \<open>\<^verbatim>\<open>size\<close> is \<^verbatim>\<open>const\<close>: it compares the two sizes and returns the vector's.\<close>

definition size_om :: "('k, 'v) OrderedMap \<Rightarrow> error + int" where
  "size_om s =
     (if card (fmdom' (om_map s)) \<noteq> length (om_vector s)
      then Inl (runtime_error ''msa::OrderedMap::size() - map size doesn't equal vector size'')
      else Inr (int (length (om_vector s))))"

text \<open>
  \<^verbatim>\<open>at(key)\<close>, \<^verbatim>\<open>at(index)\<close> (and \<^verbatim>\<open>operator[]\<close>, which only calls them), \<^verbatim>\<open>keyFor\<close> and
  \<^verbatim>\<open>indexFor\<close> read the state; the bodies of the \<^verbatim>\<open>const\<close> and the non-\<^verbatim>\<open>const\<close> overloads
  are the same. The reference returned is modelled by the value it refers to.
\<close>

definition at_key :: "('k, 'v) OrderedMap \<Rightarrow> 'k \<Rightarrow> error + 'v" where
  "at_key s key =
     (case validateKey s key ''msa::OrderedMap::at(keyType)'' of
        Inl e \<Rightarrow> Inl e
      | Inr _ \<Rightarrow>
          (case fmlookup (om_map s) key of
             None \<Rightarrow> Inl out_of_range
           | Some p \<Rightarrow> Inr (fst p)))"

definition at_index :: "('k, 'v) OrderedMap \<Rightarrow> int \<Rightarrow> error + 'v" where
  "at_index s index =
     (case validateIndex s index ''msa::OrderedMap::at(int)'' of
        Inl e \<Rightarrow> Inl e
      | Inr _ \<Rightarrow> at_key s (om_vector s ! nat index))"

definition keyFor :: "('k, 'v) OrderedMap \<Rightarrow> int \<Rightarrow> error + 'k" where
  "keyFor s index =
     (case validateIndex s index ''msa::OrderedMap::keyFor(int)'' of
        Inl e \<Rightarrow> Inl e
      | Inr _ \<Rightarrow> Inr (om_vector s ! nat index))"

definition indexFor :: "('k, 'v) OrderedMap \<Rightarrow> 'k \<Rightarrow> error + int" where
  "indexFor s key =
     (case validateKey s key ''msa::OrderedMap::indexFor(keyType)'' of
        Inl e \<Rightarrow> Inl e
      | Inr _ \<Rightarrow>
          (case fmlookup (om_map s) key of
             None \<Rightarrow> Inl out_of_range
           | Some p \<Rightarrow> Inr (snd p)))"

text \<open>
  A mutating member function returns its outcome together with the state it leaves behind,
  also when it throws: an exception does not undo the assignments made before it.
\<close>

definition push_back ::
  "('k, 'v) OrderedMap \<Rightarrow> 'k \<Rightarrow> 'v \<Rightarrow> (error + 'v) \<times> ('k, 'v) OrderedMap" where
  "push_back s key t =
     (if exists s key
      then (Inl (invalid_argument
                   ''msa::OrderedMap::push_back(keyType, T&) - key already exists''), s)
      else
        let s1 = s\<lparr>om_map := fmupd key (t, int (length (om_vector s))) (om_map s)\<rparr>;
            s2 = s1\<lparr>om_vector := om_vector s1 @ [key]\<rparr>
        in (case size_om s2 of
              Inl e \<Rightarrow> (Inl e, s2)
            | Inr _ \<Rightarrow> (at_key s2 key, s2)))"

text \<open>
  \<^verbatim>\<open>std::map::operator[]\<close>: the entry of the key, inserted value-initialised when the key
  is absent. \<open>T0\<close> stands for the value-initialised \<^verbatim>\<open>T()\<close>; the index of a fresh pair is 0.
\<close>

definition map_subscript ::
  "'v \<Rightarrow> ('k, 'v \<times> int) fmap \<Rightarrow> 'k \<Rightarrow> ('v \<times> int) \<times> ('k, 'v \<times> int) fmap" where
  "map_subscript T0 m key =
     (case fmlookup m key of
        Some p \<Rightarrow> (p, m)
      | None \<Rightarrow> ((T0, 0), fmupd key (T0, 0) m))"

text \<open>
  The two \<^verbatim>\<open>changeKey\<close> overloads take \<^verbatim>\<open>const keyType& newKey\<close> and read it twice, each
  time after \<^verbatim>\<open>_map\<close> has been modified: in \<^verbatim>\<open>_map[newKey] = t\<close>, after
  \<^verbatim>\<open>_map.erase(oldKey)\<close>, and in \<^verbatim>\<open>_vector.at(t.second) = newKey\<close>, after that assignment.
  What the parameter refers to therefore matters. It is either a \<^verbatim>\<open>keyType\<close> object outside
  the container (a literal, a temporary, a variable of the caller), which the call cannot
  change, or the \<^verbatim>\<open>T\<close> object that \<^verbatim>\<open>_map\<close> holds under some key, which \<^verbatim>\<open>at\<close> and
  \<^verbatim>\<open>operator[]\<close> hand out by reference: the whole of it when \<^verbatim>\<open>T\<close> is \<^verbatim>\<open>keyType\<close>, as in
  \<^verbatim>\<open>m.changeKey("a", m.at("z"))\<close>, or a part of it. The function of a \<open>Stored\<close> reference
  says how the stored \<^verbatim>\<open>T\<close> is read as a key (\<open>id\<close> when \<^verbatim>\<open>T\<close> is \<^verbatim>\<open>keyType\<close>).
  (\<^verbatim>\<open>_vector\<close> is private and \<^verbatim>\<open>keyFor\<close> returns a copy, so no reference into it exists.)

  The other reference parameters are passed by value here: \<^verbatim>\<open>oldKey\<close>, and the key of
  \<^verbatim>\<open>erase\<close> and \<^verbatim>\<open>fastErase\<close>, are last read by \<^verbatim>\<open>_map.erase\<close>, the first modification;
  \<^verbatim>\<open>push_back\<close> only inserts a new entry, which leaves every stored object as it was.
\<close>

datatype ('k, 'v) key_ref =
    Object 'k
  | Stored 'k "'v \<Rightarrow> 'k"

text \<open>
  Reading a reference in the current \<^verbatim>\<open>_map\<close>. A \<open>Stored\<close> reference whose entry has been
  erased dangles: reading it is undefined behaviour, \<open>None\<close> here.
\<close>

fun read_key :: "('k, 'v \<times> int) fmap \<Rightarrow> ('k, 'v) key_ref \<Rightarrow> 'k option" where
  "read_key m (Object k) = Some k"
| "read_key m (Stored r view) = map_option (\<lambda>p. view (fst p)) (fmlookup m r)"

definition changeKey_key ::
  "'v \<Rightarrow> ('k, 'v) OrderedMap \<Rightarrow> 'k \<Rightarrow> ('k, 'v) key_ref \<Rightarrow>
     (error + unit) \<times> ('k, 'v) OrderedMap" where
  "changeKey_key T0 s oldKey newKey =
     (case validateKey s oldKey ''msa::OrderedMap::changeKey(keyType)'' of
        Inl e \<Rightarrow> (Inl e, s)
      | Inr _ \<Rightarrow>
          (case map_subscript T0 (om_map s) oldKey of
             (t, m0) \<Rightarrow>
               let s1 = s\<lparr>om_map := fmdrop oldKey m0\<rparr>
               in (case read_key (om_map s1) newKey of
                     None \<Rightarrow> (Inl undefined_behaviour, s1)
                   | Some k1 \<Rightarrow>
                       let s2 = s1\<lparr>om_map := fmupd k1 t (om_map s1)\<rparr>
                       in if snd t < 0 \<or> int (length (om_vector s2)) \<le> snd t
                          then (Inl out_of_range, s2)
                          else
                            (case read_key (om_map s2) newKey of
                               None \<Rightarrow> (Inl undefined_behaviour, s2)
                             | Some k2 \<Rightarrow>
                                 (Inr (),
                                  s2\<lparr>om_vector := (om_vector s2)[nat (snd t) := k2]\<rparr>)))))"

definition changeKey_index ::
  "'v \<Rightarrow> ('k, 'v) OrderedMap \<Rightarrow> int \<Rightarrow> ('k, 'v) key_ref \<Rightarrow>
     (error + unit) \<times> ('k, 'v) OrderedMap" where
  "changeKey_index T0 s index newKey =
     (case validateIndex s index ''msa::OrderedMap::changeKey(int)'' of
        Inl e \<Rightarrow> (Inl e, s)
      | Inr _ \<Rightarrow>
          (case keyFor s index of
             Inl e \<Rightarrow> (Inl e, s)
           | Inr key \<Rightarrow> changeKey_key T0 s key newKey))"

text \<open>
  The assignment \<^verbatim>\<open>_map[key].second = i\<close>: \<^verbatim>\<open>operator[]\<close> finds or inserts the entry,
  whose second component is then overwritten.
\<close>

definition assign_second ::
  "'v \<Rightarrow> ('k, 'v \<times> int) fmap \<Rightarrow> 'k \<Rightarrow> int \<Rightarrow> ('k, 'v \<times> int) fmap" where
  "assign_second T0 m key i =
     (case map_subscript T0 m key of (p, m') \<Rightarrow> fmupd key (fst p, i) m')"

text \<open>
  \<^verbatim>\<open>updateMapIndices\<close>: the loop
  \<^verbatim>\<open>for(int i=0; i<_vector.size(); i++) { const keyType& key = _vector[i]; _map[key].second = i; }\<close>
  with its counter as argument, entered at \<open>i = 0\<close>.
\<close>

function updateMapIndices_loop ::
  "'v \<Rightarrow> ('k, 'v) OrderedMap \<Rightarrow> nat \<Rightarrow> ('k, 'v) OrderedMap" where
  "updateMapIndices_loop T0 s i =
     (if i < length (om_vector s)
      then updateMapIndices_loop T0
             (s\<lparr>om_map := assign_second T0 (om_map s) (om_vector s ! i) (int i)\<rparr>) (i + 1)
      else s)"
  by pat_completeness auto
termination
  by (relation "measure (\<lambda>(T0, s, i). length (om_vector s) - i)") auto

declare updateMapIndices_loop.simps [simp del]

definition updateMapIndices :: "'v \<Rightarrow> ('k, 'v) OrderedMap \<Rightarrow> ('k, 'v) OrderedMap" where
  "updateMapIndices T0 s = updateMapIndices_loop T0 s 0"

definition fastErase ::
  "'v \<Rightarrow> ('k, 'v) OrderedMap \<Rightarrow> int \<Rightarrow> 'k \<Rightarrow> (error + unit) \<times> ('k, 'v) OrderedMap" where
  "fastErase T0 s index key =
     (let s1 = s\<lparr>om_map := fmdrop key (om_map s)\<rparr>
      in if index < 0 \<or> int (length (om_vector s1)) \<le> index
         then (Inl undefined_behaviour, s1)
         else
           let s2 = s1\<lparr>om_vector :=
                        take (nat index) (om_vector s1) @ drop (Suc (nat index)) (om_vector s1)\<rparr>
           in (Inr (), updateMapIndices T0 s2))"

definition erase_index ::
  "'v \<Rightarrow> ('k, 'v) OrderedMap \<Rightarrow> int \<Rightarrow> (error + unit) \<times> ('k, 'v) OrderedMap" where
  "erase_index T0 s index =
     (case validateIndex s index ''msa::OrderedMap::erase(int)'' of
        Inl e \<Rightarrow> (Inl e, s)
      | Inr _ \<Rightarrow>
          (case keyFor s index of
             Inl e \<Rightarrow> (Inl e, s)
           | Inr key \<Rightarrow>
               (case fastErase T0 s index key of
                  (Inl e, s1) \<Rightarrow> (Inl e, s1)
                | (Inr _, s1) \<Rightarrow>
                    (case size_om s1 of
                       Inl e \<Rightarrow> (Inl e, s1)
                     | Inr _ \<Rightarrow> (Inr (), s1)))))"

definition erase_key ::
  "'v \<Rightarrow> ('k, 'v) OrderedMap \<Rightarrow> 'k \<Rightarrow> (error + unit) \<times> ('k, 'v) OrderedMap" where
  "erase_key T0 s key =
     (case validateKey s key ''msa::OrderedMap::erase(keyType)'' of
        Inl e \<Rightarrow> (Inl e, s)
      | Inr _ \<Rightarrow>
          (case indexFor s key of
             Inl e \<Rightarrow> (Inl e, s)
           | Inr index \<Rightarrow>
               (case fastErase T0 s index key of
                  (Inl e, s1) \<Rightarrow> (Inl e, s1)
                | (Inr _, s1) \<Rightarrow>
                    (case size_om s1 of
                       Inl e \<Rightarrow> (Inl e, s1)
                     | Inr _ \<Rightarrow> (Inr (), s1)))))"

definition clear :: "('k, 'v) OrderedMap \<Rightarrow> ('k, 'v) OrderedMap" where
  "clear s = s\<lparr>om_vector := [], om_map := fmempty\<rparr>"

section \<open>The specification's vocabulary\<close>

text \<open>
  The specification names four kinds of failure. In the code the first three are all
  \<^verbatim>\<open>std::invalid_argument\<close>, told apart by their message, and the fourth is the
  \<^verbatim>\<open>std::runtime_error\<close> of \<^verbatim>\<open>size()\<close>. The argument of the two middle ones is the
  name of the member function that \<^verbatim>\<open>validateIndex\<close> or \<^verbatim>\<open>validateKey\<close> was given.
\<close>

definition DuplicateKeyError :: error where
  "DuplicateKeyError =
     invalid_argument ''msa::OrderedMap::push_back(keyType, T&) - key already exists''"

definition IndexOutOfRangeError :: "string \<Rightarrow> error" where
  "IndexOutOfRangeError fn = invalid_argument (fn @ '' - index doesn't exist'')"

definition KeyNotFoundError :: "string \<Rightarrow> error" where
  "KeyNotFoundError fn = invalid_argument (fn @ '' - key doesn't exist'')"

definition InternalInvariantError :: error where
  "InternalInvariantError =
     runtime_error ''msa::OrderedMap::size() - map size doesn't equal vector size''"

text \<open>
  The invariants I1 to I4 of the specification, with \<open>byKey\<close> read as \<^verbatim>\<open>_map\<close> and
  \<open>order\<close> as \<^verbatim>\<open>_vector\<close>.
\<close>

definition I1 :: "('k, 'v) OrderedMap \<Rightarrow> bool" where
  "I1 s = (length (om_vector s) = card (fmdom' (om_map s)))"

definition I2 :: "('k, 'v) OrderedMap \<Rightarrow> bool" where
  "I2 s = (\<forall>i < length (om_vector s).
             map_option snd (fmlookup (om_map s) (om_vector s ! i)) = Some (int i))"

definition I3 :: "('k, 'v) OrderedMap \<Rightarrow> bool" where
  "I3 s = (\<forall>k \<in> fmdom' (om_map s).
             case fmlookup (om_map s) k of
               None \<Rightarrow> False
             | Some p \<Rightarrow>
                 0 \<le> snd p \<and> nat (snd p) < length (om_vector s) \<and>
                 om_vector s ! nat (snd p) = k)"

definition I4 :: "('k, 'v) OrderedMap \<Rightarrow> bool" where
  "I4 s = (distinct (om_vector s) \<and> fmdom' (om_map s) = set (om_vector s))"

definition invariants :: "('k, 'v) OrderedMap \<Rightarrow> bool" where
  "invariants s = (I1 s \<and> I2 s \<and> I3 s \<and> I4 s)"

text \<open>
  What the specification asks of every public operation, on the outcome and the state a
  call leaves: a call that returns leaves a state satisfying the invariants, and a call
  that throws leaves the state \<open>s\<close> it started from.
\<close>

definition transition_ok ::
  "('k, 'v) OrderedMap \<Rightarrow> (error + 'a) \<times> ('k, 'v) OrderedMap \<Rightarrow> bool" where
  "transition_ok s out =
     (case out of
        (Inr _, s') \<Rightarrow> invariants s'
      | (Inl _, s') \<Rightarrow> s' = s)"

text \<open>
  The effect of an erasure in the specification's words: the entry at position \<open>p\<close> is
  removed from both structures, and every remaining entry whose position was greater
  than \<open>p\<close> has it decremented by one.
\<close>

definition renumber :: "int \<Rightarrow> 'v \<times> int \<Rightarrow> 'v \<times> int" where
  "renumber p e = (fst e, if p < snd e then snd e - 1 else snd e)"

definition erase_spec :: "('k, 'v) OrderedMap \<Rightarrow> nat \<Rightarrow> ('k, 'v) OrderedMap" where
  "erase_spec s p =
     s\<lparr>om_map := fmmap (renumber (int p)) (fmdrop (om_vector s ! p) (om_map s)),
       om_vector := take p (om_vector s) @ drop (Suc p) (om_vector s)\<rparr>"

text \<open>The value \<^verbatim>\<open>_map[k].first\<close> would read: the stored one, or \<^verbatim>\<open>T()\<close>.\<close>

definition stored_value :: "'v \<Rightarrow> ('k, 'v \<times> int) fmap \<Rightarrow> 'k \<Rightarrow> 'v" where
  "stored_value T0 m k = (case fmlookup m k of Some p \<Rightarrow> fst p | None \<Rightarrow> T0)"

text \<open>
  A finite sequence of \<^verbatim>\<open>push_back\<close> calls, as a caller makes them one after the
  other: the first exception ends the sequence.
\<close>

fun push_all ::
  "('k, 'v) OrderedMap \<Rightarrow> ('k \<times> 'v) list \<Rightarrow> error + ('k, 'v) OrderedMap" where
  "push_all s [] = Inr s"
| "push_all s ((key, t) # rest) =
     (case push_back s key t of
        (Inl e, _) \<Rightarrow> Inl e
      | (Inr _, s') \<Rightarrow> push_all s' rest)"

text \<open>
  The container of the example program after its four insertions (the values are the
  ages it stores), used to evaluate the operations on a concrete state.
\<close>

definition demo :: "(string, nat) OrderedMap" where
  "demo =
     \<lparr>om_map =
        fmupd ''bruce'' (3, 3) (fmupd ''pearl'' (2, 2)
          (fmupd ''jane'' (27, 1) (fmupd ''memo'' (37, 0) fmempty))),
      om_vector = [''memo'', ''jane'', ''pearl'', ''bruce'']\<rparr>"

text \<open>
  The state \<^verbatim>\<open>changeKey("memo", "jane")\<close> leaves that container in: \<open>jane\<close> labels two
  positions and \<^verbatim>\<open>_map\<close> has three entries.
\<close>

definition aliased :: "(string, nat) OrderedMap" where
  "aliased =
     \<lparr>om_map = fmupd ''bruce'' (3, 3) (fmupd ''pearl'' (2, 2) (fmupd ''jane'' (37, 0) fmempty)),
      om_vector = [''jane'', ''jane'', ''pearl'', ''bruce'']\<rparr>"

text \<open>
  A container with \<^verbatim>\<open>keyType\<close> and \<^verbatim>\<open>T\<close> both \<^verbatim>\<open>std::string\<close>, after
  \<^verbatim>\<open>push_back("a", "va")\<close> and \<^verbatim>\<open>push_back("z", "z")\<close>: here \<^verbatim>\<open>at\<close> returns references that
  can be passed as keys.
\<close>

definition names :: "(string, string) OrderedMap" where
  "names =
     \<lparr>om_map = fmupd ''z'' (''z'', 1) (fmupd ''a'' (''va'', 0) fmempty),
      om_vector = [''a'', ''z'']\<rparr>"

section \<open>Auxiliary facts\<close>

subsection \<open>The renumbering loop\<close>

lemma fmlookup_assign_second:
  "fmlookup (assign_second T0 m key i) k =
     (if k = key then Some (stored_value T0 m key, i) else fmlookup m k)"
  by (auto simp: assign_second_def map_subscript_def stored_value_def split: option.splits)

lemma stored_value_assign_second:
  "stored_value T0 (assign_second T0 m key i) k = stored_value T0 m k"
  by (simp add: stored_value_def fmlookup_assign_second)

lemma fmdom'_assign_second:
  "fmdom' (assign_second T0 m key i) = insert key (fmdom' m)"
  by (auto simp: assign_second_def map_subscript_def split: option.splits)

lemma loop_vector:
  "om_vector (updateMapIndices_loop T0 s i) = om_vector s"
proof (induction T0 s i rule: updateMapIndices_loop.induct)
  case (1 T0 s i)
  show ?case
  proof (cases "i < length (om_vector s)")
    case True
    with 1 show ?thesis by (subst updateMapIndices_loop.simps) simp
  next
    case False
    then show ?thesis by (subst updateMapIndices_loop.simps) simp
  qed
qed

lemma loop_lookup_notin:
  "k \<notin> set (drop i (om_vector s)) \<Longrightarrow>
   fmlookup (om_map (updateMapIndices_loop T0 s i)) k = fmlookup (om_map s) k"
proof (induction T0 s i rule: updateMapIndices_loop.induct)
  case (1 T0 s i)
  show ?case
  proof (cases "i < length (om_vector s)")
    case True
    then have d: "drop i (om_vector s) = om_vector s ! i # drop (Suc i) (om_vector s)"
      by (simp add: Cons_nth_drop_Suc)
    with "1.prems" have ne: "k \<noteq> om_vector s ! i" and nin: "k \<notin> set (drop (Suc i) (om_vector s))"
      by auto
    from "1.IH" [OF True] nin ne True show ?thesis
      by (subst updateMapIndices_loop.simps) (simp add: fmlookup_assign_second)
  next
    case False
    then show ?thesis by (subst updateMapIndices_loop.simps) simp
  qed
qed

lemma loop_lookup_last:
  "i \<le> j \<Longrightarrow> j < length (om_vector s) \<Longrightarrow> om_vector s ! j = k \<Longrightarrow>
   (\<forall>j'. j < j' \<and> j' < length (om_vector s) \<longrightarrow> om_vector s ! j' \<noteq> k) \<Longrightarrow>
   fmlookup (om_map (updateMapIndices_loop T0 s i)) k =
     Some (stored_value T0 (om_map s) k, int j)"
proof (induction T0 s i rule: updateMapIndices_loop.induct)
  case (1 T0 s i)
  let ?s' = "s\<lparr>om_map := assign_second T0 (om_map s) (om_vector s ! i) (int i)\<rparr>"
  from "1.prems" have lt: "i < length (om_vector s)" by simp
  have unf: "updateMapIndices_loop T0 s i = updateMapIndices_loop T0 ?s' (i + 1)"
    using lt by (subst updateMapIndices_loop.simps) simp
  show ?case
  proof (cases "i = j")
    case True
    have "k \<notin> set (drop (i + 1) (om_vector ?s'))"
      using "1.prems" True by (auto simp: in_set_conv_nth)
    then have "fmlookup (om_map (updateMapIndices_loop T0 ?s' (i + 1))) k = fmlookup (om_map ?s') k"
      by (rule loop_lookup_notin)
    with True "1.prems" unf show ?thesis by (simp add: fmlookup_assign_second)
  next
    case False
    with "1.prems" have "i + 1 \<le> j" by simp
    from "1.IH" [OF lt this] "1.prems"
    have "fmlookup (om_map (updateMapIndices_loop T0 ?s' (i + 1))) k =
            Some (stored_value T0 (om_map ?s') k, int j)" by simp
    with unf show ?thesis by (simp add: stored_value_assign_second)
  qed
qed

lemma loop_dom:
  "fmdom' (om_map (updateMapIndices_loop T0 s i)) = fmdom' (om_map s) \<union> set (drop i (om_vector s))"
proof (induction T0 s i rule: updateMapIndices_loop.induct)
  case (1 T0 s i)
  show ?case
  proof (cases "i < length (om_vector s)")
    case True
    then have d: "drop i (om_vector s) = om_vector s ! i # drop (Suc i) (om_vector s)"
      by (simp add: Cons_nth_drop_Suc)
    from "1.IH" [OF True] True show ?thesis
      by (subst updateMapIndices_loop.simps) (simp add: fmdom'_assign_second d)
  next
    case False
    then show ?thesis by (subst updateMapIndices_loop.simps) simp
  qed
qed

subsection \<open>Reading the invariants\<close>

lemma invariants_lookup_nth:
  assumes "invariants s" "i < length (om_vector s)"
  shows "\<exists>val. fmlookup (om_map s) (om_vector s ! i) = Some (val, int i)"
proof -
  from assms have "map_option snd (fmlookup (om_map s) (om_vector s ! i)) = Some (int i)"
    by (simp add: invariants_def I2_def)
  then show ?thesis by (cases "fmlookup (om_map s) (om_vector s ! i)") auto
qed

lemma invariants_lookup_pos:
  assumes "invariants s" "fmlookup (om_map s) k = Some (val, q)"
  shows "0 \<le> q \<and> nat q < length (om_vector s) \<and> om_vector s ! nat q = k"
proof -
  from assms(2) have "k \<in> fmdom' (om_map s)" by (rule fmdom'I)
  with assms show ?thesis by (auto simp: invariants_def I3_def)
qed

lemma invariants_distinct: "invariants s \<Longrightarrow> distinct (om_vector s)"
  by (simp add: invariants_def I4_def)

lemma invariants_dom: "invariants s \<Longrightarrow> fmdom' (om_map s) = set (om_vector s)"
  by (simp add: invariants_def I4_def)

lemma invariants_card: "invariants s \<Longrightarrow> card (fmdom' (om_map s)) = length (om_vector s)"
  by (simp add: invariants_def I1_def)

lemma invariantsI:
  assumes d: "distinct (om_vector s)"
    and dom: "fmdom' (om_map s) = set (om_vector s)"
    and pos: "\<And>i. i < length (om_vector s) \<Longrightarrow>
                map_option snd (fmlookup (om_map s) (om_vector s ! i)) = Some (int i)"
  shows "invariants s"
proof -
  have "I1 s" using d dom by (simp add: I1_def distinct_card)
  moreover have "I2 s" using pos by (simp add: I2_def)
  moreover have "I3 s"
    unfolding I3_def
  proof
    fix k assume "k \<in> fmdom' (om_map s)"
    with dom obtain i where i: "i < length (om_vector s)" "om_vector s ! i = k"
      by (auto simp: in_set_conv_nth)
    from pos [OF i(1)] i show "case fmlookup (om_map s) k of None \<Rightarrow> False
        | Some p \<Rightarrow> 0 \<le> snd p \<and> nat (snd p) < length (om_vector s) \<and> om_vector s ! nat (snd p) = k"
      by (auto split: option.splits)
  qed
  moreover have "I4 s" using d dom by (simp add: I4_def)
  ultimately show ?thesis by (simp add: invariants_def)
qed

lemma invariants_empty_map: "invariants empty_map"
  by (simp add: invariants_def I1_def I2_def I3_def I4_def empty_map_def)

subsection \<open>Erasing from a valid container\<close>

lemma nth_erased:
  "j < length v - 1 \<Longrightarrow>
   (take p v @ drop (Suc p) v) ! j = (if j < p then v ! j else v ! Suc j)"
  by (auto simp: nth_append min_def)

lemma distinct_erased:
  "distinct v \<Longrightarrow> distinct (take p v @ drop (Suc p) v)"
  using set_take_disj_set_drop_if_distinct [of v p "Suc p"] by simp

lemma set_erased:
  assumes "distinct v" "p < length v"
  shows "set (take p v @ drop (Suc p) v) = set v - {v ! p}"
proof -
  have v: "v = take p v @ v ! p # drop (Suc p) v"
    using assms(2) by (rule id_take_nth_drop)
  from assms(1) have "distinct (take p v @ v ! p # drop (Suc p) v)"
    using v by simp
  then have "v ! p \<notin> set (take p v)" "v ! p \<notin> set (drop (Suc p) v)" by auto
  moreover have "set v = set (take p v) \<union> {v ! p} \<union> set (drop (Suc p) v)"
    by (subst v) auto
  ultimately show ?thesis by auto
qed

lemma fmlookup_erase_spec_nth:
  assumes inv: "invariants s" and p: "p < length (om_vector s)"
    and j: "j < length (om_vector s) - 1"
  shows "\<exists>val. fmlookup (om_map s) (om_vector (erase_spec s p) ! j) = Some (val, int (if j < p then j else Suc j)) \<and>
          fmlookup (om_map (erase_spec s p)) (om_vector (erase_spec s p) ! j) = Some (val, int j)"
proof -
  let ?q = "if j < p then j else Suc j"
  have q: "?q < length (om_vector s)" "?q \<noteq> p" using j by auto
  have k: "om_vector (erase_spec s p) ! j = om_vector s ! ?q"
    using j by (simp add: erase_spec_def nth_erased)
  from invariants_lookup_nth [OF inv q(1)] obtain val where
    val: "fmlookup (om_map s) (om_vector s ! ?q) = Some (val, int ?q)" by blast
  have ne: "om_vector s ! ?q \<noteq> om_vector s ! p"
    using q p invariants_distinct [OF inv] by (simp add: nth_eq_iff_index_eq)
  have "fmlookup (om_map (erase_spec s p)) (om_vector s ! ?q) = Some (val, int j)"
    using val ne by (auto simp: erase_spec_def renumber_def)
  with val k show ?thesis by auto
qed

lemma invariants_erase_spec:
  assumes inv: "invariants s" and p: "p < length (om_vector s)"
  shows "invariants (erase_spec s p)"
proof (rule invariantsI)
  show "distinct (om_vector (erase_spec s p))"
    using distinct_erased [OF invariants_distinct [OF inv], of p] by (simp add: erase_spec_def)
  show "fmdom' (om_map (erase_spec s p)) = set (om_vector (erase_spec s p))"
    using set_erased [OF invariants_distinct [OF inv] p] invariants_dom [OF inv]
    by (simp add: erase_spec_def)
next
  fix i assume "i < length (om_vector (erase_spec s p))"
  then have "i < length (om_vector s) - 1" using p by (simp add: erase_spec_def)
  from fmlookup_erase_spec_nth [OF inv p this]
  show "map_option snd (fmlookup (om_map (erase_spec s p)) (om_vector (erase_spec s p) ! i)) = Some (int i)"
    by auto
qed

lemma fastErase_erase_spec:
  assumes inv: "invariants s" and p: "p < length (om_vector s)"
  shows "fastErase T0 s (int p) (om_vector s ! p) = (Inr (), erase_spec s p)"
proof -
  let ?v = "om_vector s" and ?m = "om_map s"
  let ?v' = "take p ?v @ drop (Suc p) ?v"
  let ?s2 = "s\<lparr>om_map := fmdrop (?v ! p) ?m, om_vector := ?v'\<rparr>"
  let ?r = "updateMapIndices_loop T0 ?s2 0"
  have fe: "fastErase T0 s (int p) (?v ! p) = (Inr (), ?r)"
    using p by (simp add: fastErase_def updateMapIndices_def Let_def)
  have vec: "om_vector ?r = om_vector (erase_spec s p)"
    by (simp add: loop_vector erase_spec_def)
  have dv': "distinct ?v'" using invariants_distinct [OF inv] by (rule distinct_erased)
  have sv': "set ?v' = set ?v - {?v ! p}"
    using invariants_distinct [OF inv] p by (rule set_erased)
  have "fmlookup (om_map ?r) k = fmlookup (om_map (erase_spec s p)) k" for k
  proof (cases "k \<in> set ?v'")
    case False
    then have "fmlookup (om_map ?r) k = fmlookup (om_map ?s2) k"
      by (intro loop_lookup_notin) simp
    moreover have "fmlookup (om_map (erase_spec s p)) k = None"
    proof (cases "k = ?v ! p")
      case True then show ?thesis by (simp add: erase_spec_def)
    next
      case ne: False
      with False sv' have "k \<notin> set ?v" by blast
      then have "k \<notin> fmdom' ?m" using invariants_dom [OF inv] by simp
      then have "fmlookup ?m k = None" by (rule fmdom'_notD)
      then show ?thesis by (simp add: erase_spec_def)
    qed
    moreover have "fmlookup (om_map ?s2) k = None"
    proof (cases "k = ?v ! p")
      case True then show ?thesis by simp
    next
      case ne: False
      with False sv' have "k \<notin> set ?v" by blast
      then have "k \<notin> fmdom' ?m" using invariants_dom [OF inv] by simp
      then have "fmlookup ?m k = None" by (rule fmdom'_notD)
      then show ?thesis by simp
    qed
    ultimately show ?thesis by simp
  next
    case True
    then obtain j where j: "j < length ?v'" "?v' ! j = k" by (meson in_set_conv_nth)
    then have j': "j < length ?v - 1" using p by simp
    from fmlookup_erase_spec_nth [OF inv p j'] j obtain val where
      val: "fmlookup ?m k = Some (val, int (if j < p then j else Suc j))"
           "fmlookup (om_map (erase_spec s p)) k = Some (val, int j)"
      by (auto simp: erase_spec_def)
    have kne: "k \<noteq> ?v ! p" using True sv' by blast
    have uniq: "\<forall>j'. j < j' \<and> j' < length (om_vector ?s2) \<longrightarrow> om_vector ?s2 ! j' \<noteq> k"
      using dv' j by (auto simp: nth_eq_iff_index_eq)
    have "fmlookup (om_map ?r) k = Some (stored_value T0 (om_map ?s2) k, int j)"
      using j uniq by (intro loop_lookup_last) simp_all
    moreover have "stored_value T0 (om_map ?s2) k = val"
      using val(1) kne by (simp add: stored_value_def)
    ultimately show ?thesis using val(2) by simp
  qed
  then have "om_map ?r = om_map (erase_spec s p)" by (rule fmap_ext)
  with vec have "?r = erase_spec s p" by (intro OrderedMap.equality) simp_all
  with fe show ?thesis by simp
qed

lemma size_om_valid: "invariants s \<Longrightarrow> size_om s = Inr (int (length (om_vector s)))"
  by (simp add: size_om_def invariants_card)

lemma observe_entry:
  assumes "q < length (om_vector s)"
    and "fmlookup (om_map s) (om_vector s ! q) = Some (val, int q)"
  shows "keyFor s (int q) = Inr (om_vector s ! q)"
    and "at_index s (int q) = Inr val"
    and "at_key s (om_vector s ! q) = Inr val"
    and "indexFor s (om_vector s ! q) = Inr (int q)"
  using assms
  by (simp_all add: keyFor_def at_index_def at_key_def indexFor_def validateIndex_def
      validateKey_def exists_def)

lemma erase_index_valid:
  assumes inv: "invariants s" and p: "p < length (om_vector s)"
  shows "erase_index T0 s (int p) = (Inr (), erase_spec s p)"
proof -
  have "size_om (erase_spec s p) = Inr (int (length (om_vector (erase_spec s p))))"
    using invariants_erase_spec [OF inv p] by (rule size_om_valid)
  then show ?thesis
    using p fastErase_erase_spec [OF inv p, of T0]
    by (simp add: erase_index_def validateIndex_def keyFor_def)
qed

lemma erase_key_valid:
  assumes inv: "invariants s" and p: "p < length (om_vector s)"
  shows "erase_key T0 s (om_vector s ! p) = (Inr (), erase_spec s p)"
proof -
  from invariants_lookup_nth [OF inv p] obtain val where
    val: "fmlookup (om_map s) (om_vector s ! p) = Some (val, int p)" by blast
  have "size_om (erase_spec s p) = Inr (int (length (om_vector (erase_spec s p))))"
    using invariants_erase_spec [OF inv p] by (rule size_om_valid)
  then show ?thesis
    using val fastErase_erase_spec [OF inv p, of T0]
    by (simp add: erase_key_def validateKey_def exists_def indexFor_def)
qed

subsection \<open>Renaming and inserting\<close>

lemma at_key_InrD:
  "at_key s k = Inr val \<Longrightarrow> \<exists>q. fmlookup (om_map s) k = Some (val, q)"
  by (auto simp: at_key_def validateKey_def exists_def split: if_splits option.splits)

lemma indexFor_InrD:
  "indexFor s k = Inr q \<Longrightarrow> \<exists>val. fmlookup (om_map s) k = Some (val, q)"
  by (auto simp: indexFor_def validateKey_def exists_def split: if_splits option.splits)

lemma read_key_after_assignment:
  assumes "read_key m newKey = Some k1"
  shows "\<exists>k2. read_key (fmupd k1 t m) newKey = Some k2"
  using assms by (cases newKey) auto

lemma changeKey_key_reads:
  assumes l: "fmlookup (om_map s) oldKey = Some (val, pos)"
    and r: "0 \<le> pos" "pos < int (length (om_vector s))"
    and k1: "read_key (fmdrop oldKey (om_map s)) newKey = Some k1"
    and k2: "read_key (fmupd k1 (val, pos) (fmdrop oldKey (om_map s))) newKey = Some k2"
  shows "changeKey_key T0 s oldKey newKey =
           (Inr (), s\<lparr>om_map := fmupd k1 (val, pos) (fmdrop oldKey (om_map s)),
                      om_vector := (om_vector s)[nat pos := k2]\<rparr>)"
  using l r k1 k2
  by (simp add: changeKey_key_def validateKey_def exists_def map_subscript_def Let_def)

lemma changeKey_key_dangling:
  assumes l: "fmlookup (om_map s) oldKey = Some (val, pos)"
    and k1: "read_key (fmdrop oldKey (om_map s)) newKey = None"
  shows "changeKey_key T0 s oldKey newKey =
           (Inl undefined_behaviour, s\<lparr>om_map := fmdrop oldKey (om_map s)\<rparr>)"
  using l k1
  by (simp add: changeKey_key_def validateKey_def exists_def map_subscript_def Let_def)

lemma changeKey_key_present:
  assumes l: "fmlookup (om_map s) oldKey = Some (val, pos)"
    and r: "0 \<le> pos" "pos < int (length (om_vector s))"
  shows "changeKey_key T0 s oldKey (Object newKey) =
           (Inr (), s\<lparr>om_map := fmupd newKey (val, pos) (fmdrop oldKey (om_map s)),
                      om_vector := (om_vector s)[nat pos := newKey]\<rparr>)"
  using l r by (intro changeKey_key_reads) simp_all

text \<open>
  A reference to a stored object that the call neither erases nor assigns to reads the
  same key throughout, and the call does what it does for that key given from outside.
\<close>

lemma changeKey_key_stable_reference:
  assumes "r \<noteq> oldKey" "fmlookup (om_map s) r = Some (x, q)" "view x \<noteq> r"
  shows "changeKey_key T0 s oldKey (Stored r view) =
         changeKey_key T0 s oldKey (Object (view x))"
  using assms
  by (simp add: changeKey_key_def validateKey_def exists_def map_subscript_def Let_def
      split: option.splits)

text \<open>
  A reference to the object stored under \<open>oldKey\<close> itself is read after \<^verbatim>\<open>_map.erase(oldKey)\<close>
  has destroyed that object.
\<close>

lemma changeKey_key_reference_to_own_value:
  assumes "exists s oldKey"
  shows "changeKey_key T0 s oldKey (Stored oldKey view) =
           (Inl undefined_behaviour, s\<lparr>om_map := fmdrop oldKey (om_map s)\<rparr>)"
proof -
  from assms obtain val pos where "fmlookup (om_map s) oldKey = Some (val, pos)"
    by (auto simp: exists_def)
  then show ?thesis by (rule changeKey_key_dangling) simp
qed

lemma push_back_valid:
  assumes inv: "invariants s" and fresh: "\<not> exists s key"
  shows "push_back s key t =
           (Inr t, s\<lparr>om_map := fmupd key (t, int (length (om_vector s))) (om_map s),
                      om_vector := om_vector s @ [key]\<rparr>)"
    and "invariants (s\<lparr>om_map := fmupd key (t, int (length (om_vector s))) (om_map s),
                      om_vector := om_vector s @ [key]\<rparr>)"
proof -
  let ?s' = "s\<lparr>om_map := fmupd key (t, int (length (om_vector s))) (om_map s),
                om_vector := om_vector s @ [key]\<rparr>"
  from fresh have none: "fmlookup (om_map s) key = None"
    by (cases "fmlookup (om_map s) key") (simp_all add: exists_def)
  then have "key \<notin> fmdom' (om_map s)" by (rule fmdom'_notI)
  then have nin: "key \<notin> set (om_vector s)" using invariants_dom [OF inv] by simp
  show inv': "invariants ?s'"
  proof (rule invariantsI)
    show "distinct (om_vector ?s')" using invariants_distinct [OF inv] nin by simp
    show "fmdom' (om_map ?s') = set (om_vector ?s')" using invariants_dom [OF inv] by simp
  next
    fix i assume i: "i < length (om_vector ?s')"
    show "map_option snd (fmlookup (om_map ?s') (om_vector ?s' ! i)) = Some (int i)"
    proof (cases "i < length (om_vector s)")
      case True
      from invariants_lookup_nth [OF inv True] obtain val where
        "fmlookup (om_map s) (om_vector s ! i) = Some (val, int i)" by blast
      moreover from True nin have "om_vector s ! i \<noteq> key" by auto
      ultimately show ?thesis using True by (simp add: nth_append)
    next
      case False
      with i have "i = length (om_vector s)" by simp
      then show ?thesis by simp
    qed
  qed
  have "size_om ?s' = Inr (int (length (om_vector ?s')))" using inv' by (rule size_om_valid)
  then show "push_back s key t = (Inr t, ?s')"
    using fresh by (simp add: push_back_def Let_def at_key_def validateKey_def exists_def)
qed

lemma push_all_valid:
  "invariants s \<Longrightarrow> distinct (map fst kvs) \<Longrightarrow> set (map fst kvs) \<inter> set (om_vector s) = {} \<Longrightarrow>
   \<exists>s'. push_all s kvs = Inr s' \<and> invariants s' \<and> om_vector s' = om_vector s @ map fst kvs"
proof (induction kvs arbitrary: s)
  case Nil
  then show ?case by simp
next
  case (Cons kv kvs)
  obtain key t where kv: "kv = (key, t)" by (cases kv)
  let ?s1 = "s\<lparr>om_map := fmupd key (t, int (length (om_vector s))) (om_map s),
                om_vector := om_vector s @ [key]\<rparr>"
  from Cons.prems kv have "key \<notin> set (om_vector s)" by auto
  then have "key \<notin> fmdom' (om_map s)" using invariants_dom [OF Cons.prems(1)] by simp
  then have fresh: "\<not> exists s key" by (simp add: exists_def fmdom'_notD)
  note pb = push_back_valid [OF Cons.prems(1) fresh, of t]
  have d: "distinct (map fst kvs)" using Cons.prems(2) by simp
  have disj: "set (map fst kvs) \<inter> set (om_vector ?s1) = {}"
    using Cons.prems(2,3) kv by auto
  from Cons.IH [OF pb(2) d disj] obtain s' where
    "push_all ?s1 kvs = Inr s'" "invariants s'" "om_vector s' = om_vector ?s1 @ map fst kvs"
    by blast
  then show ?case using pb(1) kv by simp
qed

subsection \<open>Which keys an operation leaves in the map\<close>

lemma exists_iff_dom: "exists s k \<longleftrightarrow> k \<in> fmdom' (om_map s)"
  by (simp add: exists_def fmlookup_dom'_iff)

lemma in_set_erasedD:
  assumes "x \<in> set (take p v @ drop (Suc p) v)"
  shows "\<exists>j < length v. j \<noteq> p \<and> v ! j = x"
proof -
  from assms have "x \<in> set (take p v) \<or> x \<in> set (drop (Suc p) v)" by simp
  then show ?thesis
  proof
    assume "x \<in> set (take p v)"
    then obtain j where "j < length (take p v)" "take p v ! j = x" by (meson in_set_conv_nth)
    then have "j < length v" "j \<noteq> p" "v ! j = x" by simp_all
    then show ?thesis by blast
  next
    assume "x \<in> set (drop (Suc p) v)"
    then obtain j where j: "j < length (drop (Suc p) v)" "drop (Suc p) v ! j = x"
      by (meson in_set_conv_nth)
    then have "Suc p + j < length v" "Suc p + j \<noteq> p" "v ! (Suc p + j) = x" by simp_all
    then show ?thesis by blast
  qed
qed

lemma fastErase_in_range:
  assumes "0 \<le> index" "index < int (length (om_vector s))"
  shows "fst (fastErase T0 s index key) = Inr ()"
    and "om_vector (snd (fastErase T0 s index key)) =
           take (nat index) (om_vector s) @ drop (Suc (nat index)) (om_vector s)"
    and "fmdom' (om_map (snd (fastErase T0 s index key))) =
           (fmdom' (om_map s) - {key}) \<union>
           set (take (nat index) (om_vector s) @ drop (Suc (nat index)) (om_vector s))"
  using assms
  by (simp_all add: fastErase_def updateMapIndices_def Let_def loop_vector loop_dom)

lemma fastErase_keeps_other_keys:
  assumes "exists s k" "key \<noteq> k"
  shows "exists (snd (fastErase T0 s index key)) k"
proof (cases "0 \<le> index \<and> index < int (length (om_vector s))")
  case True
  then have "fmdom' (om_map (snd (fastErase T0 s index key))) =
       (fmdom' (om_map s) - {key}) \<union>
       set (take (nat index) (om_vector s) @ drop (Suc (nat index)) (om_vector s))"
    by (intro fastErase_in_range) simp_all
  with assms show ?thesis by (simp add: exists_iff_dom)
next
  case False
  then have "snd (fastErase T0 s index key) = s\<lparr>om_map := fmdrop key (om_map s)\<rparr>"
    by (auto simp: fastErase_def)
  with assms show ?thesis by (simp add: exists_iff_dom)
qed

lemma snd_erase_key:
  "snd (erase_key T0 s key) =
     (case indexFor s key of Inl e \<Rightarrow> s | Inr index \<Rightarrow> snd (fastErase T0 s index key))"
  by (auto simp: erase_key_def validateKey_def indexFor_def split: sum.splits prod.splits)

lemma snd_erase_index:
  "snd (erase_index T0 s i) =
     (case keyFor s i of Inl e \<Rightarrow> s | Inr key \<Rightarrow> snd (fastErase T0 s i key))"
  by (auto simp: erase_index_def validateIndex_def keyFor_def split: sum.splits prod.splits)

lemma erase_key_keeps_other_keys:
  assumes "exists s k" "key \<noteq> k"
  shows "exists (snd (erase_key T0 s key)) k"
  using assms fastErase_keeps_other_keys [OF assms, of T0]
  by (simp add: snd_erase_key split: sum.splits)

lemma erase_index_keeps_other_keys:
  assumes "exists s k"
    and "\<not> (0 \<le> i \<and> i < int (length (om_vector s)) \<and> om_vector s ! nat i = k)"
  shows "exists (snd (erase_index T0 s i)) k"
proof (cases "0 \<le> i \<and> i < int (length (om_vector s))")
  case True
  with assms(2) have ne: "om_vector s ! nat i \<noteq> k" by simp
  have "snd (erase_index T0 s i) = snd (fastErase T0 s i (om_vector s ! nat i))"
    using True
    by (simp add: snd_erase_index keyFor_def validateIndex_def)
  with fastErase_keeps_other_keys [OF assms(1) ne, of T0 i] show ?thesis by simp
next
  case False
  then have "snd (erase_index T0 s i) = s"
    by (auto simp: erase_index_def validateIndex_def)
  with assms(1) show ?thesis by simp
qed

lemma changeKey_key_keeps_other_keys:
  assumes "exists s k" "oldKey \<noteq> k"
  shows "exists (snd (changeKey_key T0 s oldKey newKey)) k"
proof (cases "fmlookup (om_map s) oldKey")
  case None
  with assms show ?thesis by (simp add: changeKey_key_def validateKey_def exists_def)
next
  case (Some t)
  let ?m1 = "fmdrop oldKey (om_map s)"
  have k: "fmlookup ?m1 k \<noteq> None" using assms by (simp add: exists_def)
  have "fmlookup (om_map (snd (changeKey_key T0 s oldKey newKey))) k \<noteq> None"
    using Some k
    by (auto simp: changeKey_key_def validateKey_def exists_def map_subscript_def Let_def
        split: option.splits)
  then show ?thesis by (simp add: exists_def)
qed

lemma changeKey_index_keeps_other_keys:
  assumes "exists s k"
    and "\<not> (0 \<le> i \<and> i < int (length (om_vector s)) \<and> om_vector s ! nat i = k)"
  shows "exists (snd (changeKey_index T0 s i newKey)) k"
proof (cases "0 \<le> i \<and> i < int (length (om_vector s))")
  case True
  with assms(2) have ne: "om_vector s ! nat i \<noteq> k" by simp
  have "changeKey_index T0 s i newKey = changeKey_key T0 s (om_vector s ! nat i) newKey"
    using True by (auto simp: changeKey_index_def validateIndex_def keyFor_def)
  with changeKey_key_keeps_other_keys [OF assms(1) ne, of T0 newKey] show ?thesis by simp
next
  case False
  then have "snd (changeKey_index T0 s i newKey) = s"
    by (auto simp: changeKey_index_def validateIndex_def)
  with assms(1) show ?thesis by simp
qed

lemma push_back_keeps_keys:
  assumes "exists s k"
  shows "exists (snd (push_back s k' t)) k"
  using assms
  by (auto simp: push_back_def Let_def exists_def split: sum.splits)

lemma push_back_returned_exists:
  assumes "push_back s k t = (Inr x, s1)"
  shows "exists s1 k"
  using assms
  by (auto simp: push_back_def Let_def exists_def split: if_splits sum.splits)

lemma erase_key_valid_gone:
  assumes inv: "invariants s" and ex: "exists s k"
  shows "\<exists>s2. erase_key T0 s k = (Inr (), s2) \<and> \<not> exists s2 k"
proof -
  from ex obtain val q where l: "fmlookup (om_map s) k = Some (val, q)"
    by (auto simp: exists_def)
  from invariants_lookup_pos [OF inv l]
  have q: "nat q < length (om_vector s)" "om_vector s ! nat q = k" by simp_all
  from erase_key_valid [OF inv q(1), of T0] q(2)
  have "erase_key T0 s k = (Inr (), erase_spec s (nat q))" by simp
  moreover have "\<not> exists (erase_spec s (nat q)) k"
    using q(2) by (simp add: exists_def erase_spec_def)
  ultimately show ?thesis by blast
qed

lemma erase_index_valid_gone:
  assumes inv: "invariants s" and i: "0 \<le> i" "i < int (length (om_vector s))"
  shows "\<exists>s2. erase_index T0 s i = (Inr (), s2) \<and> \<not> exists s2 (om_vector s ! nat i)"
proof -
  from i have I: "nat i < length (om_vector s)" "int (nat i) = i" by simp_all
  from erase_index_valid [OF inv I(1), of T0] I(2)
  have "erase_index T0 s i = (Inr (), erase_spec s (nat i))" by simp
  moreover have "\<not> exists (erase_spec s (nat i)) (om_vector s ! nat i)"
    by (simp add: exists_def erase_spec_def)
  ultimately show ?thesis by blast
qed

subsection \<open>Renaming onto a key that is present\<close>

lemma count_list_distinct:
  "distinct xs \<Longrightarrow> count_list xs x = (if x \<in> set xs then 1 else 0)"
  by (induction xs) auto

lemma count_list_relabel:
  assumes d: "distinct v" and p: "p < length v" and x: "x \<in> set v" and ne: "v ! p \<noteq> x"
  shows "count_list (v[p := x]) x = 2"
proof -
  have v: "v = take p v @ v ! p # drop (Suc p) v" using p by (rule id_take_nth_drop)
  have "count_list v x = count_list (take p v) x + count_list (drop (Suc p) v) x"
    using ne by (subst v) simp
  moreover have "count_list v x = 1" using d x by (simp add: count_list_distinct)
  moreover have "count_list (v[p := x]) x =
      count_list (take p v) x + 1 + count_list (drop (Suc p) v) x"
    using p by (simp add: upd_conv_take_nth_drop)
  ultimately show ?thesis by simp
qed

lemma erase_key_unfold:
  assumes "fmlookup (om_map s) key = Some (val, idx)"
  shows "erase_key T0 s key =
           (case fastErase T0 s idx key of
              (Inl e, s1) \<Rightarrow> (Inl e, s1)
            | (Inr u, s1) \<Rightarrow>
                (case size_om s1 of Inl e \<Rightarrow> (Inl e, s1) | Inr n \<Rightarrow> (Inr (), s1)))"
  using assms by (simp add: erase_key_def validateKey_def exists_def indexFor_def)

lemma erase_index_unfold:
  assumes "0 \<le> i" "i < int (length (om_vector s))"
  shows "erase_index T0 s i =
           (case fastErase T0 s i (om_vector s ! nat i) of
              (Inl e, s1) \<Rightarrow> (Inl e, s1)
            | (Inr u, s1) \<Rightarrow>
                (case size_om s1 of Inl e \<Rightarrow> (Inl e, s1) | Inr n \<Rightarrow> (Inr (), s1)))"
  using assms by (simp add: erase_index_def validateIndex_def keyFor_def)

lemma rename_onto_present:
  assumes inv: "invariants s"
    and lo: "fmlookup (om_map s) oldKey = Some (vo, po)"
    and ln: "fmlookup (om_map s) newKey = Some (vn, pn)"
    and ne: "oldKey \<noteq> newKey"
    and s1: "s1 = s\<lparr>om_map := fmupd newKey (vo, po) (fmdrop oldKey (om_map s)),
                     om_vector := (om_vector s)[nat po := newKey]\<rparr>"
  shows "changeKey_key T0 s oldKey (Object newKey) = (Inr (), s1)"
    and "fmdom' (om_map s1) = fmdom' (om_map s) - {oldKey}"
    and "card (fmdom' (om_map s1)) + 1 = length (om_vector s1)"
    and "count_list (om_vector s1) newKey = 2"
    and "size_om s1 = Inl InternalInvariantError"
proof -
  note o = invariants_lookup_pos [OF inv lo]
  note n = invariants_lookup_pos [OF inv ln]
  from o have r: "0 \<le> po" "po < int (length (om_vector s))" by arith+
  show "changeKey_key T0 s oldKey (Object newKey) = (Inr (), s1)"
    unfolding s1 using lo r by (rule changeKey_key_present)
  have od: "oldKey \<in> fmdom' (om_map s)" and nd: "newKey \<in> fmdom' (om_map s)"
    using lo ln by (auto intro: fmdom'I)
  show dom: "fmdom' (om_map s1) = fmdom' (om_map s) - {oldKey}"
    using nd ne by (auto simp: s1)
  have "card (fmdom' (om_map s) - {oldKey}) = card (fmdom' (om_map s)) - 1"
    using od by simp
  moreover have "card (fmdom' (om_map s)) > 0" using od by (auto simp: card_gt_0_iff)
  ultimately show c: "card (fmdom' (om_map s1)) + 1 = length (om_vector s1)"
    using dom invariants_card [OF inv] by (simp add: s1)
  have "newKey \<in> set (om_vector s)" using nd invariants_dom [OF inv] by simp
  then show "count_list (om_vector s1) newKey = 2"
    using count_list_relabel [OF invariants_distinct [OF inv], of "nat po" newKey] o ne
    by (simp add: s1)
  from c show "size_om s1 = Inl InternalInvariantError"
    by (simp add: size_om_def InternalInvariantError_def)
qed

lemma push_back_after_bad_rename:
  assumes c: "card (fmdom' (om_map s1)) + 1 = length (om_vector s1)" and fresh: "\<not> exists s1 k"
  shows "fst (push_back s1 k t) = Inl InternalInvariantError"
proof -
  from fresh have "k \<notin> fmdom' (om_map s1)" by (simp add: exists_iff_dom)
  then have "card (insert k (fmdom' (om_map s1))) = Suc (card (fmdom' (om_map s1)))"
    by simp
  with c fresh show ?thesis
    by (simp add: push_back_def Let_def size_om_def InternalInvariantError_def)
qed

lemma erase_other_after_bad_rename:
  assumes inv: "invariants s"
    and lo: "fmlookup (om_map s) oldKey = Some (vo, po)"
    and ln: "fmlookup (om_map s) newKey = Some (vn, pn)"
    and ne: "oldKey \<noteq> newKey"
    and s1: "s1 = s\<lparr>om_map := fmupd newKey (vo, po) (fmdrop oldKey (om_map s)),
                     om_vector := (om_vector s)[nat po := newKey]\<rparr>"
    and q: "q < length (om_vector s)" and k: "om_vector s ! q = k"
    and kn: "k \<noteq> newKey" "k \<noteq> oldKey"
  shows "\<exists>r. fastErase T0 s1 (int q) k = (Inr (), r) \<and> size_om r = Inl InternalInvariantError"
proof -
  let ?v = "om_vector s" and ?v1 = "om_vector s1"
  note o = invariants_lookup_pos [OF inv lo]
  have d: "distinct ?v" using inv by (rule invariants_distinct)
  have dm: "fmdom' (om_map s) = set ?v" using inv by (rule invariants_dom)
  have od: "oldKey \<in> fmdom' (om_map s)" and nd: "newKey \<in> fmdom' (om_map s)"
    using lo ln by (auto intro: fmdom'I)
  have "?v ! q \<in> set ?v" using q by (rule nth_mem)
  then have kd: "k \<in> fmdom' (om_map s)" using k dm by simp
  have dom1: "fmdom' (om_map s1) = fmdom' (om_map s) - {oldKey}"
    using nd ne by (auto simp: s1)
  have len1: "length ?v1 = length ?v" by (simp add: s1)
  have rg: "0 \<le> int q" "int q < int (length ?v1)" using q len1 by simp_all
  define r where "r = snd (fastErase T0 s1 (int q) k)"
  note fe = fastErase_in_range [OF rg, of T0 k]
  have r: "fastErase T0 s1 (int q) k = (Inr (), r)"
       "om_vector r = take q ?v1 @ drop (Suc q) ?v1"
       "fmdom' (om_map r) = (fmdom' (om_map s1) - {k}) \<union> set (take q ?v1 @ drop (Suc q) ?v1)"
    using fe by (simp_all only: r_def nat_int prod_eq_iff fst_conv snd_conv simp_thms)
  have sub: "set (take q ?v1 @ drop (Suc q) ?v1) \<subseteq> fmdom' (om_map s) - {oldKey, k}"
  proof
    fix x assume "x \<in> set (take q ?v1 @ drop (Suc q) ?v1)"
    from in_set_erasedD [OF this] obtain j where
      j: "j < length ?v1" "j \<noteq> q" "?v1 ! j = x" by blast
    show "x \<in> fmdom' (om_map s) - {oldKey, k}"
    proof (cases "j = nat po")
      case True
      with j o have "x = newKey" by (simp add: s1)
      with nd ne kn show ?thesis by simp
    next
      case False
      with j have x: "x = ?v ! j" and jl: "j < length ?v" by (simp_all add: s1)
      have "nat po < length ?v" using o by simp
      then have "?v ! j \<noteq> ?v ! nat po" using False jl d by (simp add: nth_eq_iff_index_eq)
      then have "?v ! j \<noteq> oldKey" using o by simp
      moreover have "?v ! j \<noteq> ?v ! q" using j(2) jl q d by (simp add: nth_eq_iff_index_eq)
      then have "?v ! j \<noteq> k" using k by simp
      moreover have "?v ! j \<in> fmdom' (om_map s)" using jl dm by simp
      ultimately show ?thesis using x by simp
    qed
  qed
  have "fmdom' (om_map r) = (fmdom' (om_map s) - {oldKey} - {k}) \<union>
      set (take q ?v1 @ drop (Suc q) ?v1)" using r(3) dom1 by simp
  with sub have dr: "fmdom' (om_map r) = fmdom' (om_map s) - {oldKey, k}" by blast
  have n2: "card (fmdom' (om_map s) - {oldKey, k}) = card (fmdom' (om_map s)) - 2"
    using od kd kn by (simp add: card_Diff_subset)
  have two: "2 \<le> card (fmdom' (om_map s))"
  proof -
    have "card {oldKey, k} \<le> card (fmdom' (om_map s))"
      using od kd by (intro card_mono) auto
    with kn show ?thesis by simp
  qed
  have lr: "length (om_vector r) = length ?v - 1" using r(2) q len1 by simp
  from dr n2 two lr invariants_card [OF inv]
  have "card (fmdom' (om_map r)) \<noteq> length (om_vector r)" by simp
  then have "size_om r = Inl InternalInvariantError"
    by (simp add: size_om_def InternalInvariantError_def)
  with r(1) show ?thesis by blast
qed

lemma erase_new_after_bad_rename:
  assumes inv: "invariants s"
    and lo: "fmlookup (om_map s) oldKey = Some (vo, po)"
    and ln: "fmlookup (om_map s) newKey = Some (vn, pn)"
    and ne: "oldKey \<noteq> newKey"
    and s1: "s1 = s\<lparr>om_map := fmupd newKey (vo, po) (fmdrop oldKey (om_map s)),
                     om_vector := (om_vector s)[nat po := newKey]\<rparr>"
  shows "fst (erase_key T0 s1 newKey) = Inr ()"
proof -
  let ?v = "om_vector s" and ?v1 = "om_vector s1"
  note o = invariants_lookup_pos [OF inv lo]
  have d: "distinct ?v" using inv by (rule invariants_distinct)
  have dm: "fmdom' (om_map s) = set ?v" using inv by (rule invariants_dom)
  have od: "oldKey \<in> fmdom' (om_map s)" and nd: "newKey \<in> fmdom' (om_map s)"
    using lo ln by (auto intro: fmdom'I)
  have dom1: "fmdom' (om_map s1) = fmdom' (om_map s) - {oldKey}"
    using nd ne by (auto simp: s1)
  have len1: "length ?v1 = length ?v" by (simp add: s1)
  have l1: "fmlookup (om_map s1) newKey = Some (vo, po)" by (simp add: s1)
  have rg: "0 \<le> po" "po < int (length ?v1)" using o len1 by arith+
  define r where "r = snd (fastErase T0 s1 po newKey)"
  note fe = fastErase_in_range [OF rg, of T0 newKey]
  have r: "fastErase T0 s1 po newKey = (Inr (), r)"
       "om_vector r = take (nat po) ?v1 @ drop (Suc (nat po)) ?v1"
       "fmdom' (om_map r) =
          (fmdom' (om_map s1) - {newKey}) \<union> set (take (nat po) ?v1 @ drop (Suc (nat po)) ?v1)"
    using fe by (simp_all only: r_def prod_eq_iff fst_conv snd_conv simp_thms)
  have e: "take (nat po) ?v1 @ drop (Suc (nat po)) ?v1 = take (nat po) ?v @ drop (Suc (nat po)) ?v"
    unfolding s1 by simp
  have se: "set (take (nat po) ?v @ drop (Suc (nat po)) ?v) = set ?v - {oldKey}"
    using set_erased [OF d, of "nat po"] o by simp
  have "fmdom' (om_map r) = (fmdom' (om_map s) - {oldKey} - {newKey}) \<union> (set ?v - {oldKey})"
    using r(3) dom1 e se by (simp only:)
  with dm have dr: "fmdom' (om_map r) = fmdom' (om_map s) - {oldKey}" by blast
  have "card (fmdom' (om_map s) - {oldKey}) = card (fmdom' (om_map s)) - 1"
    using od by simp
  moreover have "length (om_vector r) = length ?v - 1" using r(2) e o by simp
  ultimately have "card (fmdom' (om_map r)) = length (om_vector r)"
    using dr invariants_card [OF inv] by simp
  then have "size_om r = Inr (int (length (om_vector r)))" by (simp add: size_om_def)
  with r(1) erase_key_unfold [OF l1, of T0] show ?thesis by simp
qed

subsection \<open>The operations that keep the invariants\<close>

lemma changeKey_key_fresh_valid:
  assumes inv: "invariants s"
    and lo: "fmlookup (om_map s) oldKey = Some (vo, po)"
    and fresh: "\<not> exists s newKey"
  shows "invariants (s\<lparr>om_map := fmupd newKey (vo, po) (fmdrop oldKey (om_map s)),
                       om_vector := (om_vector s)[nat po := newKey]\<rparr>)"
    (is "invariants ?s'")
proof (rule invariantsI)
  let ?v = "om_vector s"
  note o = invariants_lookup_pos [OF inv lo]
  have d: "distinct ?v" using inv by (rule invariants_distinct)
  have dm: "fmdom' (om_map s) = set ?v" using inv by (rule invariants_dom)
  have P: "nat po < length ?v" "?v ! nat po = oldKey" using o by simp_all
  from fresh have nin: "newKey \<notin> set ?v" using dm by (simp add: exists_iff_dom)
  show "distinct (om_vector ?s')" using d nin by (simp add: distinct_list_update)
  show "fmdom' (om_map ?s') = set (om_vector ?s')"
    using set_update_distinct [OF d P(1), of newKey] P(2) dm by simp
  fix i assume "i < length (om_vector ?s')"
  then have i: "i < length ?v" by simp
  show "map_option snd (fmlookup (om_map ?s') (om_vector ?s' ! i)) = Some (int i)"
  proof (cases "i = nat po")
    case True
    with P(1) o show ?thesis by simp
  next
    case False
    from invariants_lookup_nth [OF inv i] obtain val where
      val: "fmlookup (om_map s) (?v ! i) = Some (val, int i)" by blast
    have "?v ! i \<noteq> ?v ! nat po" using False i P(1) d by (simp add: nth_eq_iff_index_eq)
    then have "?v ! i \<noteq> oldKey" using P(2) by simp
    moreover have "?v ! i \<noteq> newKey" using nin i by (metis nth_mem)
    ultimately show ?thesis using False val by simp
  qed
qed

lemma changeKey_key_same_key:
  assumes inv: "invariants s" and lo: "fmlookup (om_map s) oldKey = Some (vo, po)"
  shows "s\<lparr>om_map := fmupd oldKey (vo, po) (fmdrop oldKey (om_map s)),
           om_vector := (om_vector s)[nat po := oldKey]\<rparr> = s"
proof -
  note o = invariants_lookup_pos [OF inv lo]
  have "fmupd oldKey (vo, po) (fmdrop oldKey (om_map s)) = om_map s"
    using lo by (intro fmap_ext) auto
  moreover have "(om_vector s)[nat po := oldKey] = om_vector s"
    using o by (simp add: list_update_same_conv)
  ultimately show ?thesis by simp
qed

lemma changeKey_key_transition_ok:
  assumes inv: "invariants s"
    and ok: "\<not> (exists s oldKey \<and> exists s newKey \<and> oldKey \<noteq> newKey)"
  shows "transition_ok s (changeKey_key T0 s oldKey (Object newKey))"
proof (cases "exists s oldKey")
  case False
  then show ?thesis by (simp add: changeKey_key_def validateKey_def transition_ok_def)
next
  case True
  then obtain vo po where lo: "fmlookup (om_map s) oldKey = Some (vo, po)"
    by (auto simp: exists_def)
  note o = invariants_lookup_pos [OF inv lo]
  have r: "0 \<le> po" "po < int (length (om_vector s))" using o by arith+
  note c = changeKey_key_present [OF lo r, of T0 newKey]
  show ?thesis
  proof (cases "oldKey = newKey")
    case same: True
    with c changeKey_key_same_key [OF inv lo] inv show ?thesis
      by (simp add: transition_ok_def)
  next
    case False
    with ok True have "\<not> exists s newKey" by simp
    from changeKey_key_fresh_valid [OF inv lo this] c show ?thesis
      by (simp add: transition_ok_def)
  qed
qed

lemma changeKey_index_transition_ok:
  assumes inv: "invariants s"
    and ok: "\<not> (0 \<le> i \<and> i < int (length (om_vector s)) \<and> exists s newKey \<and>
                om_vector s ! nat i \<noteq> newKey)"
  shows "transition_ok s (changeKey_index T0 s i (Object newKey))"
proof (cases "0 \<le> i \<and> i < int (length (om_vector s))")
  case False
  then show ?thesis by (auto simp: changeKey_index_def validateIndex_def transition_ok_def)
next
  case True
  then have e: "changeKey_index T0 s i (Object newKey) =
      changeKey_key T0 s (om_vector s ! nat i) (Object newKey)"
    by (simp add: changeKey_index_def validateIndex_def keyFor_def)
  from ok True have "\<not> (exists s (om_vector s ! nat i) \<and> exists s newKey \<and>
      om_vector s ! nat i \<noteq> newKey)" by blast
  from changeKey_key_transition_ok [OF inv this, of T0] e show ?thesis by simp
qed

lemma push_back_transition_ok:
  assumes inv: "invariants s"
  shows "transition_ok s (push_back s key t)"
proof (cases "exists s key")
  case True
  then show ?thesis by (simp add: push_back_def transition_ok_def)
next
  case False
  from push_back_valid [OF inv False, of t] show ?thesis by (simp add: transition_ok_def)
qed

lemma erase_index_transition_ok:
  assumes inv: "invariants s"
  shows "transition_ok s (erase_index T0 s i)"
proof (cases "0 \<le> i \<and> i < int (length (om_vector s))")
  case False
  then show ?thesis by (auto simp: erase_index_def validateIndex_def transition_ok_def)
next
  case True
  then have I: "nat i < length (om_vector s)" "int (nat i) = i" by arith+
  from erase_index_valid [OF inv I(1), of T0] I(2) invariants_erase_spec [OF inv I(1)]
  show ?thesis by (simp add: transition_ok_def)
qed

lemma erase_key_transition_ok:
  assumes inv: "invariants s"
  shows "transition_ok s (erase_key T0 s key)"
proof (cases "exists s key")
  case False
  then show ?thesis by (simp add: erase_key_def validateKey_def transition_ok_def)
next
  case True
  then obtain val q where l: "fmlookup (om_map s) key = Some (val, q)"
    by (auto simp: exists_def)
  from invariants_lookup_pos [OF inv l]
  have q: "nat q < length (om_vector s)" "om_vector s ! nat q = key" by simp_all
  from erase_key_valid [OF inv q(1), of T0] q(2) invariants_erase_spec [OF inv q(1)]
  show ?thesis by (simp add: transition_ok_def)
qed

lemma invariants_clear: "invariants (clear s)"
  by (simp add: clear_def invariants_def I1_def I2_def I3_def I4_def)

subsection \<open>I3 in every state\<close>

text \<open>
  I3 needs no other invariant to be kept: whatever the state, and whether the call
  returns or throws, each mutating operation leaves a state satisfying I3 when it
  started in one, \<^verbatim>\<open>changeKey\<close> when its new key is an object outside the container. So I3
  holds in every state that such calls reach from the empty container, also after a
  \<^verbatim>\<open>changeKey\<close> onto a key that is present.
\<close>

lemma I3_iff:
  "I3 s \<longleftrightarrow>
     (\<forall>k val q. fmlookup (om_map s) k = Some (val, q) \<longrightarrow>
        0 \<le> q \<and> nat q < length (om_vector s) \<and> om_vector s ! nat q = k)"
proof
  assume i3: "I3 s"
  show "\<forall>k val q. fmlookup (om_map s) k = Some (val, q) \<longrightarrow>
        0 \<le> q \<and> nat q < length (om_vector s) \<and> om_vector s ! nat q = k"
  proof (intro allI impI)
    fix k val q assume l: "fmlookup (om_map s) k = Some (val, q)"
    then have "k \<in> fmdom' (om_map s)" by (rule fmdom'I)
    with i3 l show "0 \<le> q \<and> nat q < length (om_vector s) \<and> om_vector s ! nat q = k"
      unfolding I3_def by fastforce
  qed
next
  assume a: "\<forall>k val q. fmlookup (om_map s) k = Some (val, q) \<longrightarrow>
        0 \<le> q \<and> nat q < length (om_vector s) \<and> om_vector s ! nat q = k"
  show "I3 s"
    unfolding I3_def
  proof
    fix k assume "k \<in> fmdom' (om_map s)"
    then obtain p where p: "fmlookup (om_map s) k = Some p" by (auto simp: fmlookup_dom'_iff)
    with a [rule_format, of k "fst p" "snd p"]
    show "case fmlookup (om_map s) k of None \<Rightarrow> False
          | Some p \<Rightarrow> 0 \<le> snd p \<and> nat (snd p) < length (om_vector s) \<and>
              om_vector s ! nat (snd p) = k"
      by simp
  qed
qed

lemma I3_lookupD:
  assumes "I3 s" "fmlookup (om_map s) k = Some (val, q)"
  shows "0 \<le> q" "q < int (length (om_vector s))" "nat q < length (om_vector s)"
    "om_vector s ! nat q = k"
proof -
  from assms have "0 \<le> q \<and> nat q < length (om_vector s) \<and> om_vector s ! nat q = k"
    unfolding I3_iff by blast
  then show "0 \<le> q" "q < int (length (om_vector s))" "nat q < length (om_vector s)"
    "om_vector s ! nat q = k" by arith+
qed

lemma I3_position_in_range:
  assumes "I3 s" "indexFor s k = Inr pos"
  shows "0 \<le> pos \<and> pos < int (length (om_vector s)) \<and> keyFor s pos = Inr k"
proof -
  from indexFor_InrD [OF assms(2)] obtain val where
    "fmlookup (om_map s) k = Some (val, pos)" by blast
  from I3_lookupD [OF assms(1) this] show ?thesis
    by (simp add: keyFor_def validateIndex_def)
qed

lemma last_occurrence:
  "k \<in> set xs \<Longrightarrow>
   \<exists>j < length xs. xs ! j = k \<and> (\<forall>j'. j < j' \<and> j' < length xs \<longrightarrow> xs ! j' \<noteq> k)"
proof (induction xs rule: rev_induct)
  case Nil
  then show ?case by simp
next
  case (snoc x xs)
  show ?case
  proof (cases "x = k")
    case True
    then show ?thesis by (intro exI [of _ "length xs"]) auto
  next
    case False
    with snoc.prems have "k \<in> set xs" by simp
    from snoc.IH [OF this] obtain j where
      j: "j < length xs" "xs ! j = k" "\<forall>j'. j < j' \<and> j' < length xs \<longrightarrow> xs ! j' \<noteq> k"
      by blast
    have "(xs @ [x]) ! j' \<noteq> k" if "j < j'" "j' < length (xs @ [x])" for j'
      using that j(3) False by (cases "j' < length xs") (simp_all add: nth_append)
    with j(1,2) show ?thesis by (intro exI [of _ j]) (simp add: nth_append)
  qed
qed

lemma nth_in_set_erased:
  assumes "j < length v" "j \<noteq> p"
  shows "v ! j \<in> set (take p v @ drop (Suc p) v)"
proof (cases "j < p")
  case True
  with assms have "take p v ! j = v ! j" "j < length (take p v)" by simp_all
  then have "v ! j \<in> set (take p v)" by (metis nth_mem)
  then show ?thesis by simp
next
  case False
  with assms have "drop (Suc p) v ! (j - Suc p) = v ! j" "j - Suc p < length (drop (Suc p) v)"
    by simp_all
  then have "v ! j \<in> set (drop (Suc p) v)" by (metis nth_mem)
  then show ?thesis by simp
qed

lemma I3_updateMapIndices:
  assumes "\<forall>k val q. fmlookup (om_map s) k = Some (val, q) \<longrightarrow> k \<in> set (om_vector s)"
  shows "I3 (updateMapIndices T0 s)"
  unfolding I3_iff
proof (intro allI impI)
  fix k val q
  assume l: "fmlookup (om_map (updateMapIndices T0 s)) k = Some (val, q)"
  have "k \<in> set (om_vector s)"
  proof (rule ccontr)
    assume n: "k \<notin> set (om_vector s)"
    then have "k \<notin> set (drop 0 (om_vector s))" by simp
    from loop_lookup_notin [OF this, of T0] l
    have "fmlookup (om_map s) k = Some (val, q)" by (simp add: updateMapIndices_def)
    with assms n show False by blast
  qed
  from last_occurrence [OF this] obtain j where
    j: "j < length (om_vector s)" "om_vector s ! j = k"
       "\<forall>j'. j < j' \<and> j' < length (om_vector s) \<longrightarrow> om_vector s ! j' \<noteq> k"
    by blast
  from loop_lookup_last [OF _ j, of 0 T0] l have "q = int j"
    by (simp add: updateMapIndices_def)
  with j show "0 \<le> q \<and> nat q < length (om_vector (updateMapIndices T0 s)) \<and>
      om_vector (updateMapIndices T0 s) ! nat q = k"
    by (simp add: updateMapIndices_def loop_vector)
qed

lemma I3_fastErase:
  assumes i3: "I3 s" and r: "0 \<le> index" "index < int (length (om_vector s))"
    and k: "om_vector s ! nat index = key"
  shows "I3 (snd (fastErase T0 s index key))"
proof -
  let ?v' = "take (nat index) (om_vector s) @ drop (Suc (nat index)) (om_vector s)"
  let ?s2 = "s\<lparr>om_map := fmdrop key (om_map s), om_vector := ?v'\<rparr>"
  have "k' \<in> set (om_vector ?s2)" if "fmlookup (om_map ?s2) k' = Some (val, q)" for k' val q
  proof -
    from that have ne: "k' \<noteq> key" and l: "fmlookup (om_map s) k' = Some (val, q)"
      by (auto split: if_splits)
    note p = I3_lookupD [OF i3 l]
    from p(4) k ne have "nat q \<noteq> nat index" by auto
    from nth_in_set_erased [OF p(3) this] p(4) show ?thesis by simp
  qed
  then have "I3 (updateMapIndices T0 ?s2)" by (intro I3_updateMapIndices) blast
  then show ?thesis using r by (simp add: fastErase_def Let_def)
qed

lemma I3_push_back:
  assumes i3: "I3 s"
  shows "I3 (snd (push_back s key t))"
proof (cases "exists s key")
  case True
  with i3 show ?thesis by (simp add: push_back_def)
next
  case False
  let ?s' = "s\<lparr>om_map := fmupd key (t, int (length (om_vector s))) (om_map s),
               om_vector := om_vector s @ [key]\<rparr>"
  have "I3 ?s'"
    unfolding I3_iff
  proof (intro allI impI)
    fix k val q
    assume l: "fmlookup (om_map ?s') k = Some (val, q)"
    show "0 \<le> q \<and> nat q < length (om_vector ?s') \<and> om_vector ?s' ! nat q = k"
    proof (cases "k = key")
      case True
      with l show ?thesis by auto
    next
      case ne: False
      with l have "fmlookup (om_map s) k = Some (val, q)" by (auto split: if_splits)
      from I3_lookupD [OF i3 this] show ?thesis by (simp add: nth_append)
    qed
  qed
  moreover have "snd (push_back s key t) = ?s'"
    using False by (simp add: push_back_def Let_def split: sum.splits)
  ultimately show ?thesis by simp
qed

lemma I3_changeKey_key:
  assumes i3: "I3 s"
  shows "I3 (snd (changeKey_key T0 s oldKey (Object newKey)))"
proof (cases "fmlookup (om_map s) oldKey")
  case None
  then show ?thesis using i3 by (simp add: changeKey_key_def validateKey_def exists_def)
next
  case (Some t)
  obtain vo po where t: "t = (vo, po)" by (cases t)
  with Some have lo: "fmlookup (om_map s) oldKey = Some (vo, po)" by simp
  note o = I3_lookupD [OF i3 lo]
  let ?s' = "s\<lparr>om_map := fmupd newKey (vo, po) (fmdrop oldKey (om_map s)),
               om_vector := (om_vector s)[nat po := newKey]\<rparr>"
  have "I3 ?s'"
    unfolding I3_iff
  proof (intro allI impI)
    fix k val q
    assume l: "fmlookup (om_map ?s') k = Some (val, q)"
    show "0 \<le> q \<and> nat q < length (om_vector ?s') \<and> om_vector ?s' ! nat q = k"
    proof (cases "k = newKey")
      case True
      with l o show ?thesis by simp
    next
      case False
      with l have ne: "k \<noteq> oldKey" and l': "fmlookup (om_map s) k = Some (val, q)"
        by (auto split: if_splits)
      note p = I3_lookupD [OF i3 l']
      from p(4) o(4) ne have "nat q \<noteq> nat po" by auto
      with p show ?thesis by simp
    qed
  qed
  then show ?thesis using changeKey_key_present [OF lo o(1,2), of T0 newKey] by simp
qed

lemma I3_changeKey_index: "I3 s \<Longrightarrow> I3 (snd (changeKey_index T0 s i (Object newKey)))"
  using I3_changeKey_key [of s T0 _ newKey]
  by (simp add: changeKey_index_def validateIndex_def keyFor_def)

lemma I3_erase_index:
  assumes "I3 s"
  shows "I3 (snd (erase_index T0 s i))"
proof (cases "0 \<le> i \<and> i < int (length (om_vector s))")
  case True
  with I3_fastErase [OF assms, of i _ T0] assms show ?thesis
    by (simp add: snd_erase_index keyFor_def validateIndex_def)
next
  case False
  with assms show ?thesis by (auto simp: erase_index_def validateIndex_def)
qed

lemma I3_erase_key:
  assumes "I3 s"
  shows "I3 (snd (erase_key T0 s key))"
proof (cases "indexFor s key")
  case (Inl e)
  with assms show ?thesis by (simp add: snd_erase_key)
next
  case (Inr q)
  from indexFor_InrD [OF Inr] obtain val where l: "fmlookup (om_map s) key = Some (val, q)"
    by blast
  note p = I3_lookupD [OF assms l]
  from I3_fastErase [OF assms p(1,2,4), of T0] Inr show ?thesis by (simp add: snd_erase_key)
qed

lemma I3_empty_and_clear: "I3 empty_map" "I3 (clear s)"
  by (simp_all add: I3_def empty_map_def clear_def)

lemma I3_kept_by_every_operation:
  assumes "I3 s"
  shows "I3 (snd (push_back s key t)) \<and>
         I3 (snd (changeKey_key T0 s oldKey (Object newKey))) \<and>
         I3 (snd (changeKey_index T0 s i (Object newKey))) \<and>
         I3 (snd (erase_key T0 s key)) \<and>
         I3 (snd (erase_index T0 s i)) \<and>
         I3 (clear s)"
  using assms
  by (intro conjI I3_push_back I3_changeKey_key I3_changeKey_index I3_erase_key
      I3_erase_index I3_empty_and_clear)

subsection \<open>Erasing a doubled key by index\<close>

lemma erase_index_new_after_bad_rename:
  assumes inv: "invariants s"
    and lo: "fmlookup (om_map s) oldKey = Some (vo, po)"
    and ln: "fmlookup (om_map s) newKey = Some (vn, pn)"
    and ne: "oldKey \<noteq> newKey"
    and s1: "s1 = s\<lparr>om_map := fmupd newKey (vo, po) (fmdrop oldKey (om_map s)),
                     om_vector := (om_vector s)[nat po := newKey]\<rparr>"
    and i: "0 \<le> i" "i < int (length (om_vector s1))" and k: "om_vector s1 ! nat i = newKey"
  shows "fst (erase_index T0 s1 i) = Inr ()"
proof -
  let ?v = "om_vector s" and ?v1 = "om_vector s1"
  let ?v2 = "take (nat i) ?v1 @ drop (Suc (nat i)) ?v1"
  note o = invariants_lookup_pos [OF inv lo]
  have P: "nat po < length ?v" "?v ! nat po = oldKey" using o by simp_all
  have d: "distinct ?v" using inv by (rule invariants_distinct)
  have dm: "fmdom' (om_map s) = set ?v" using inv by (rule invariants_dom)
  have od: "oldKey \<in> fmdom' (om_map s)" and nd: "newKey \<in> fmdom' (om_map s)"
    using lo ln by (auto intro: fmdom'I)
  have dom1: "fmdom' (om_map s1) = fmdom' (om_map s) - {oldKey}"
    using nd ne by (auto simp: s1)
  have v1: "?v1 = ?v[nat po := newKey]" by (simp add: s1)
  have len1: "length ?v1 = length ?v" by (simp add: s1)
  have I: "nat i < length ?v1" using i by arith
  define r where "r = snd (fastErase T0 s1 i newKey)"
  note fe = fastErase_in_range [OF i, of T0 newKey]
  have r: "fastErase T0 s1 i newKey = (Inr (), r)" "om_vector r = ?v2"
    "fmdom' (om_map r) = (fmdom' (om_map s1) - {newKey}) \<union> set ?v2"
    using fe by (simp_all only: r_def prod_eq_iff fst_conv snd_conv simp_thms)
  have sub: "set ?v2 \<subseteq> fmdom' (om_map s) - {oldKey}"
  proof
    fix x assume "x \<in> set ?v2"
    from in_set_erasedD [OF this] obtain j where j: "j < length ?v1" "?v1 ! j = x" by blast
    show "x \<in> fmdom' (om_map s) - {oldKey}"
    proof (cases "j = nat po")
      case True
      with j P(1) have "x = newKey" by (simp add: v1)
      with nd ne show ?thesis by simp
    next
      case False
      with j have x: "x = ?v ! j" and jl: "j < length ?v" by (simp_all add: v1)
      have "?v ! j \<noteq> ?v ! nat po" using False jl P(1) d by (simp add: nth_eq_iff_index_eq)
      then have "?v ! j \<noteq> oldKey" using P(2) by simp
      moreover have "?v ! j \<in> fmdom' (om_map s)" using jl dm by simp
      ultimately show ?thesis using x by simp
    qed
  qed
  have new_in: "newKey \<in> set ?v2"
  proof (cases "nat i = nat po")
    case True
    from nd dm obtain j where j: "j < length ?v" "?v ! j = newKey" by (metis in_set_conv_nth)
    have "?v ! j \<noteq> ?v ! nat po" using j(2) P(2) ne by simp
    then have jne: "j \<noteq> nat po" by auto
    then have "?v1 ! j = newKey" using j by (simp add: v1)
    moreover have "j < length ?v1" "j \<noteq> nat i" using j(1) jne True len1 by simp_all
    ultimately show ?thesis using nth_in_set_erased [of j ?v1 "nat i"] by simp
  next
    case False
    have "?v1 ! nat po = newKey" using P(1) by (simp add: v1)
    moreover have "nat po < length ?v1" using P(1) len1 by simp
    ultimately show ?thesis using nth_in_set_erased [of "nat po" ?v1 "nat i"] False by simp
  qed
  have sup: "fmdom' (om_map s) - {oldKey} - {newKey} \<subseteq> set ?v2"
  proof
    fix x assume x: "x \<in> fmdom' (om_map s) - {oldKey} - {newKey}"
    with dm obtain j where j: "j < length ?v" "?v ! j = x" by (metis DiffD1 in_set_conv_nth)
    from x j(2) P(2) have "j \<noteq> nat po" by auto
    then have e: "?v1 ! j = x" using j by (simp add: v1)
    from e k x have "j \<noteq> nat i" by auto
    with nth_in_set_erased [of j ?v1 "nat i"] j(1) len1 e show "x \<in> set ?v2" by simp
  qed
  have "fmdom' (om_map r) = (fmdom' (om_map s) - {oldKey} - {newKey}) \<union> set ?v2"
    using r(3) dom1 by simp
  with sub sup new_in have dr: "fmdom' (om_map r) = fmdom' (om_map s) - {oldKey}" by blast
  have "card (fmdom' (om_map s) - {oldKey}) = card (fmdom' (om_map s)) - 1"
    using od by simp
  moreover have "length (om_vector r) = length ?v - 1" using r(2) I len1 by simp
  ultimately have "card (fmdom' (om_map r)) = length (om_vector r)"
    using dr invariants_card [OF inv] by simp
  then have "size_om r = Inr (int (length (om_vector r)))" by (simp add: size_om_def)
  with r(1) k erase_index_unfold [OF i, where ?T0.0 = T0] show ?thesis by simp
qed

section \<open>Evaluating on concrete states\<close>

text \<open>The defining equations that run an operation on a concrete container.\<close>

lemmas demo_eval =
  demo_def exists_def validateIndex_def validateKey_def size_om_def at_key_def at_index_def
  keyFor_def indexFor_def push_back_def map_subscript_def assign_second_def changeKey_key_def
  changeKey_index_def updateMapIndices_loop.simps updateMapIndices_def fastErase_def
  erase_index_def erase_key_def clear_def DuplicateKeyError_def IndexOutOfRangeError_def
  KeyNotFoundError_def InternalInvariantError_def erase_spec_def renumber_def

lemma invariants_demo: "invariants demo"
  by (auto simp: invariants_def I1_def I2_def I3_def I4_def demo_def All_less_Suc
      numeral_eq_Suc)

lemma changeKey_key_demo_aliased:
  "changeKey_key 0 demo ''memo'' (Object ''jane'') = (Inr (), aliased)"
  by (simp add: demo_eval aliased_def fmdrop_fmupd; auto intro!: fmap_ext)

lemma erase_key_aliased:
  "erase_key 0 aliased ''jane'' =
         (Inr (),
          \<lparr>om_map = fmupd ''bruce'' (3, 2) (fmupd ''pearl'' (2, 1) (fmupd ''jane'' (0, 0) fmempty)),
           om_vector = [''jane'', ''pearl'', ''bruce'']\<rparr>)"
  by (simp add: aliased_def demo_eval fmdrop_fmupd card_insert_if; auto intro!: fmap_ext)

lemma invariants_names: "invariants names"
  by (auto simp: invariants_def I1_def I2_def I3_def I4_def names_def All_less_Suc
      numeral_eq_Suc)

lemma changeKey_key_names_z:
  "changeKey_key [] names ''a'' (Stored ''z'' id) =
     (Inr (), \<lparr>om_map = fmupd ''z'' (''va'', 0) fmempty, om_vector = [''va'', ''z'']\<rparr>)"
  by (simp add: names_def changeKey_key_def validateKey_def exists_def map_subscript_def
      fmdrop_fmupd; auto intro!: fmap_ext)

section \<open>The claims\<close>

subsection \<open>C4: a duplicate key is rejected without mutation\<close>

text \<open>
  C4. In every container state, \<^verbatim>\<open>push_back\<close> with a key that is already present throws
  the duplicate-key error (\<^verbatim>\<open>invalid_argument\<close>, "key already exists") and leaves the
  whole state, both \<^verbatim>\<open>_map\<close> and \<^verbatim>\<open>_vector\<close>, as it was.
\<close>

theorem push_back_duplicate_rejected:
  "exists s key \<Longrightarrow> push_back s key t = (Inl DuplicateKeyError, s)"
  by (simp add: push_back_def DuplicateKeyError_def)

theorem push_back_duplicate_rejected_witness:
  "exists demo ''jane'' \<and> push_back demo ''jane'' 28 = (Inl DuplicateKeyError, demo)"
proof -
  have h: "exists demo ''jane''" by (simp add: demo_def exists_def)
  from push_back_duplicate_rejected [OF h, of 28] h show ?thesis by simp
qed

subsection \<open>C8: \<open>size\<close> checks the two structures against each other\<close>

text \<open>
  C8, as amended. When \<^verbatim>\<open>_map\<close> and \<^verbatim>\<open>_vector\<close> have the same size, \<^verbatim>\<open>size()\<close> returns
  that number, the count of entries; when they differ it throws the internal-invariant
  error. Being \<^verbatim>\<open>const\<close>, it returns no new state: it repairs nothing. The error is the
  only one \<^verbatim>\<open>size()\<close> throws, and it is a \<^verbatim>\<open>std::runtime_error\<close>: an exception that a caller
  can catch, not an abort. So \<^verbatim>\<open>size()\<close> returns exactly in the states that satisfy I1.
\<close>

theorem size_om_self_check:
  "(card (fmdom' (om_map s)) = length (om_vector s) \<longrightarrow>
      size_om s = Inr (int (length (om_vector s))) \<and>
      size_om s = Inr (int (card (fmdom' (om_map s))))) \<and>
   (card (fmdom' (om_map s)) \<noteq> length (om_vector s) \<longrightarrow>
      size_om s = Inl InternalInvariantError) \<and>
   (\<forall>e. size_om s = Inl e \<longrightarrow> e = InternalInvariantError \<and> catchable e) \<and>
   ((\<exists>n. size_om s = Inr n) \<longleftrightarrow> I1 s)"
  by (auto simp: size_om_def InternalInvariantError_def I1_def)

theorem size_om_self_check_witness:
  "card (fmdom' (om_map demo)) = length (om_vector demo) \<and>
   size_om demo = Inr 4 \<and>
   card (fmdom' (om_map aliased)) \<noteq> length (om_vector aliased) \<and>
   size_om aliased = Inl InternalInvariantError \<and>
   catchable InternalInvariantError"
proof -
  have a: "card (fmdom' (om_map demo)) = length (om_vector demo)"
    by (simp add: demo_def)
  have b: "card (fmdom' (om_map aliased)) \<noteq> length (om_vector aliased)"
    by (simp add: aliased_def card_insert_if)
  have l: "int (length (om_vector demo)) = 4" by (simp add: demo_def)
  from size_om_self_check [of demo] a l have 1: "size_om demo = Inr 4" by simp
  from size_om_self_check [of aliased] b
  have 2: "size_om aliased = Inl InternalInvariantError"
    and 3: "\<forall>e. size_om aliased = Inl e \<longrightarrow> e = InternalInvariantError \<and> catchable e"
    by blast+
  from 2 3 have "catchable InternalInvariantError" by blast
  with a b 1 2 show ?thesis by simp
qed

text \<open>
  C8 as stated does not hold: the error is not unrecoverable. After
  \<^verbatim>\<open>changeKey("memo", "jane")\<close> on the example container \<^verbatim>\<open>size()\<close> throws; the exception is
  one a caller can catch, the container is as it was, and after \<^verbatim>\<open>erase("jane")\<close>, which
  returns normally, \<^verbatim>\<open>size()\<close> returns 3.
\<close>

theorem size_error_caught_and_survived_counterexample:
  "changeKey_key 0 demo ''memo'' (Object ''jane'') = (Inr (), aliased) \<and>
   size_om aliased = Inl InternalInvariantError \<and>
   catchable InternalInvariantError \<and>
   erase_key 0 aliased ''jane'' =
     (Inr (),
      \<lparr>om_map = fmupd ''bruce'' (3, 2) (fmupd ''pearl'' (2, 1) (fmupd ''jane'' (0, 0) fmempty)),
       om_vector = [''jane'', ''pearl'', ''bruce'']\<rparr>) \<and>
   size_om
     \<lparr>om_map = fmupd ''bruce'' (3 :: nat, 2) (fmupd ''pearl'' (2, 1) (fmupd ''jane'' (0, 0) fmempty)),
      om_vector = [''jane'', ''pearl'', ''bruce'']\<rparr> = Inr 3"
proof -
  have "size_om aliased = Inl InternalInvariantError"
    by (simp add: aliased_def size_om_def InternalInvariantError_def card_insert_if)
  moreover have "catchable InternalInvariantError" by (simp add: InternalInvariantError_def)
  moreover have "size_om
     \<lparr>om_map = fmupd ''bruce'' (3 :: nat, 2) (fmupd ''pearl'' (2, 1) (fmupd ''jane'' (0, 0) fmempty)),
      om_vector = [''jane'', ''pearl'', ''bruce'']\<rparr> = Inr 3"
    by (simp add: size_om_def card_insert_if)
  ultimately show ?thesis using changeKey_key_demo_aliased erase_key_aliased by simp
qed

subsection \<open>C6: a missing index or key is rejected without mutation\<close>

text \<open>
  C6. For an index below 0 or not below the length of \<^verbatim>\<open>_vector\<close> (which is what
  \<^verbatim>\<open>size()\<close> returns when it returns), \<^verbatim>\<open>at(int)\<close>, \<^verbatim>\<open>keyFor\<close>, \<^verbatim>\<open>changeKey(int, ...)\<close> and
  \<^verbatim>\<open>erase(int)\<close> throw the index error; for a key that is absent, \<^verbatim>\<open>at(keyType)\<close>,
  \<^verbatim>\<open>indexFor\<close>, \<^verbatim>\<open>changeKey(keyType, ...)\<close> and \<^verbatim>\<open>erase(keyType)\<close> throw the key
  error. The state after each of these failing calls is the state before it.
\<close>

theorem missing_index_or_key_rejected:
  "(size_om s = Inr n \<longrightarrow> n = int (length (om_vector s))) \<and>
   (index < 0 \<or> int (length (om_vector s)) \<le> index \<longrightarrow>
      at_index s index = Inl (IndexOutOfRangeError ''msa::OrderedMap::at(int)'') \<and>
      keyFor s index = Inl (IndexOutOfRangeError ''msa::OrderedMap::keyFor(int)'') \<and>
      changeKey_index T0 s index newKey =
        (Inl (IndexOutOfRangeError ''msa::OrderedMap::changeKey(int)''), s) \<and>
      erase_index T0 s index = (Inl (IndexOutOfRangeError ''msa::OrderedMap::erase(int)''), s)) \<and>
   (\<not> exists s key \<longrightarrow>
      at_key s key = Inl (KeyNotFoundError ''msa::OrderedMap::at(keyType)'') \<and>
      indexFor s key = Inl (KeyNotFoundError ''msa::OrderedMap::indexFor(keyType)'') \<and>
      changeKey_key T0 s key newKey =
        (Inl (KeyNotFoundError ''msa::OrderedMap::changeKey(keyType)''), s) \<and>
      erase_key T0 s key = (Inl (KeyNotFoundError ''msa::OrderedMap::erase(keyType)''), s))"
  by (auto simp: at_index_def keyFor_def changeKey_index_def erase_index_def validateIndex_def
      at_key_def indexFor_def changeKey_key_def erase_key_def validateKey_def size_om_def
      IndexOutOfRangeError_def KeyNotFoundError_def split: if_splits)

theorem missing_index_or_key_rejected_witness:
  "size_om demo = Inr 4 \<and>
   (4 < (0::int) \<or> int (length (om_vector demo)) \<le> 4) \<and>
   at_index demo 4 = Inl (IndexOutOfRangeError ''msa::OrderedMap::at(int)'') \<and>
   keyFor demo 4 = Inl (IndexOutOfRangeError ''msa::OrderedMap::keyFor(int)'') \<and>
   changeKey_index 0 demo 4 (Object ''x'') =
     (Inl (IndexOutOfRangeError ''msa::OrderedMap::changeKey(int)''), demo) \<and>
   erase_index 0 demo 4 = (Inl (IndexOutOfRangeError ''msa::OrderedMap::erase(int)''), demo) \<and>
   \<not> exists demo ''blufo'' \<and>
   at_key demo ''blufo'' = Inl (KeyNotFoundError ''msa::OrderedMap::at(keyType)'') \<and>
   indexFor demo ''blufo'' = Inl (KeyNotFoundError ''msa::OrderedMap::indexFor(keyType)'') \<and>
   changeKey_key 0 demo ''blufo'' (Object ''x'') =
     (Inl (KeyNotFoundError ''msa::OrderedMap::changeKey(keyType)''), demo) \<and>
   erase_key 0 demo ''blufo'' = (Inl (KeyNotFoundError ''msa::OrderedMap::erase(keyType)''), demo)"
proof -
  have i: "4 < (0::int) \<or> int (length (om_vector demo)) \<le> 4" by (simp add: demo_def)
  have k: "\<not> exists demo ''blufo''" by (simp add: demo_def exists_def)
  have z: "size_om demo = Inr 4" by (simp add: demo_def size_om_def)
  from missing_index_or_key_rejected [of demo 4 4 0 "Object ''x''" "''blufo''"] i k z
  show ?thesis by blast
qed

subsection \<open>C2: erasing shifts the later entries down by one\<close>

text \<open>
  C2. Let the container satisfy the invariants and have size \<open>n\<close>, and let \<open>p\<close> be a
  position in \<open>[0, n)\<close>. Then \<^verbatim>\<open>erase(p)\<close> and \<^verbatim>\<open>erase\<close> of the key at \<open>p\<close> both return
  normally and leave the same state: the one the specification describes
  (\<open>erase_spec\<close>). In it the erased key is in neither \<^verbatim>\<open>_map\<close> nor \<^verbatim>\<open>_vector\<close>,
  \<^verbatim>\<open>size()\<close> is \<open>n - 1\<close>, and every other entry, found at position \<open>q\<close> with key \<open>k\<close>
  and value \<open>val\<close> before, has the same key and value at position \<open>q\<close> when \<open>q < p\<close>
  and at position \<open>q - 1\<close> when \<open>q > p\<close>.
\<close>

theorem erase_shifts_later_entries:
  assumes inv: "invariants s" and n: "size_om s = Inr n" and p: "0 \<le> p" "p < n"
  shows "\<exists>s'. erase_index T0 s p = (Inr (), s') \<and>
           erase_key T0 s (om_vector s ! nat p) = (Inr (), s') \<and>
           s' = erase_spec s (nat p) \<and>
           \<not> exists s' (om_vector s ! nat p) \<and>
           om_vector s ! nat p \<notin> set (om_vector s') \<and>
           size_om s' = Inr (n - 1) \<and>
           (\<forall>q. 0 \<le> q \<and> q < n \<and> q \<noteq> p \<longrightarrow>
              (\<exists>k val.
                 keyFor s q = Inr k \<and> at_index s q = Inr val \<and>
                 at_key s k = Inr val \<and> indexFor s k = Inr q \<and>
                 keyFor s' (if p < q then q - 1 else q) = Inr k \<and>
                 at_index s' (if p < q then q - 1 else q) = Inr val \<and>
                 at_key s' k = Inr val \<and>
                 indexFor s' k = Inr (if p < q then q - 1 else q)))"
proof -
  let ?v = "om_vector s" and ?P = "nat p"
  let ?s' = "erase_spec s ?P"
  from n size_om_valid [OF inv] have len: "n = int (length ?v)" by simp
  with p have P: "?P < length ?v" "int ?P = p" by simp_all
  have inv': "invariants ?s'" using inv P(1) by (rule invariants_erase_spec)
  have len': "length (om_vector ?s') = length ?v - 1"
    using P(1) by (simp add: erase_spec_def)
  have e1: "erase_index T0 s p = (Inr (), ?s')"
    using erase_index_valid [OF inv P(1), of T0] P(2) by simp
  have e2: "erase_key T0 s (?v ! ?P) = (Inr (), ?s')"
    using inv P(1) by (rule erase_key_valid)
  have gone_map: "\<not> exists ?s' (?v ! ?P)"
    by (simp add: exists_def erase_spec_def)
  have gone_vec: "?v ! ?P \<notin> set (om_vector ?s')"
    using set_erased [OF invariants_distinct [OF inv] P(1)] by (simp add: erase_spec_def)
  have sz: "size_om ?s' = Inr (n - 1)"
    using size_om_valid [OF inv'] len' len P(1) by (simp add: of_nat_diff)
  have entries: "\<exists>k val.
         keyFor s q = Inr k \<and> at_index s q = Inr val \<and>
         at_key s k = Inr val \<and> indexFor s k = Inr q \<and>
         keyFor ?s' (if p < q then q - 1 else q) = Inr k \<and>
         at_index ?s' (if p < q then q - 1 else q) = Inr val \<and>
         at_key ?s' k = Inr val \<and>
         indexFor ?s' k = Inr (if p < q then q - 1 else q)"
    if q: "0 \<le> q" "q < n" "q \<noteq> p" for q
  proof -
    define Q where "Q = nat q"
    define j where "j = (if ?P < Q then Q - 1 else Q)"
    have Q: "Q < length ?v" "int Q = q" "Q \<noteq> ?P" using q p len by (simp_all add: Q_def)
    have j: "j < length ?v - 1" using Q P by (auto simp: j_def)
    have bk: "(if j < ?P then j else Suc j) = Q" using Q by (auto simp: j_def)
    have ij: "int j = (if p < q then q - 1 else q)" using q p by (auto simp: j_def Q_def)
    from fmlookup_erase_spec_nth [OF inv P(1) j] obtain val where
      val: "fmlookup (om_map s) (om_vector ?s' ! j) = Some (val, int (if j < ?P then j else Suc j))"
           "fmlookup (om_map ?s') (om_vector ?s' ! j) = Some (val, int j)"
      by blast
    have "om_vector ?s' ! j = (if j < ?P then ?v ! j else ?v ! Suc j)"
      using j by (simp add: erase_spec_def nth_erased del: nth_append)
    also have "\<dots> = ?v ! (if j < ?P then j else Suc j)" by simp
    finally have key: "om_vector ?s' ! j = ?v ! Q" using bk by simp
    have old: "fmlookup (om_map s) (?v ! Q) = Some (val, int Q)"
      using val(1) key bk by simp
    have new: "fmlookup (om_map ?s') (om_vector ?s' ! j) = Some (val, int j)"
      by (rule val(2))
    have j': "j < length (om_vector ?s')" using j len' by simp
    note o = observe_entry [OF Q(1) old]
    note o' = observe_entry [OF j' new]
    from o Q(2) have a: "keyFor s q = Inr (?v ! Q)" "at_index s q = Inr val"
      "at_key s (?v ! Q) = Inr val" "indexFor s (?v ! Q) = Inr q" by simp_all
    from o' key ij have b: "keyFor ?s' (if p < q then q - 1 else q) = Inr (?v ! Q)"
      "at_index ?s' (if p < q then q - 1 else q) = Inr val"
      "at_key ?s' (?v ! Q) = Inr val"
      "indexFor ?s' (?v ! Q) = Inr (if p < q then q - 1 else q)" by simp_all
    from a b show ?thesis by blast
  qed
  show ?thesis
    using e1 e2 gone_map gone_vec sz entries by (intro exI [of _ ?s']) blast
qed

theorem erase_shifts_later_entries_witness:
  "invariants demo \<and> size_om demo = Inr 4 \<and>
   erase_index 0 demo 1 = (Inr (), erase_spec demo 1) \<and>
   erase_key 0 demo ''jane'' = (Inr (), erase_spec demo 1) \<and>
   \<not> exists (erase_spec demo 1) ''jane'' \<and>
   ''jane'' \<notin> set (om_vector (erase_spec demo 1)) \<and>
   size_om (erase_spec demo 1) = Inr 3 \<and>
   keyFor (erase_spec demo 1) 0 = Inr ''memo'' \<and>
   at_index (erase_spec demo 1) 0 = Inr 37 \<and>
   indexFor (erase_spec demo 1) ''memo'' = Inr 0 \<and>
   keyFor (erase_spec demo 1) 2 = Inr ''bruce'' \<and>
   at_index (erase_spec demo 1) 2 = Inr 3 \<and>
   indexFor (erase_spec demo 1) ''bruce'' = Inr 2"
proof -
  note inv = invariants_demo
  have sz: "size_om demo = Inr 4" by (simp add: demo_def size_om_def)
  have k: "om_vector demo ! nat 1 = ''jane''" by (simp add: demo_def)
  have o: "keyFor demo 0 = Inr ''memo''" "at_index demo 0 = Inr 37"
    "keyFor demo 3 = Inr ''bruce''" "at_index demo 3 = Inr 3"
    by (simp_all add: demo_eval numeral_3_eq_3)
  from erase_shifts_later_entries [OF inv sz, of 1 0] k
  have e: "erase_index 0 demo 1 = (Inr (), erase_spec demo 1)"
      "erase_key 0 demo ''jane'' = (Inr (), erase_spec demo 1)"
      "\<not> exists (erase_spec demo 1) ''jane''"
      "''jane'' \<notin> set (om_vector (erase_spec demo 1))"
      "size_om (erase_spec demo 1) = Inr 3"
    and q: "\<forall>q. 0 \<le> q \<and> q < 4 \<and> q \<noteq> 1 \<longrightarrow>
              (\<exists>k val.
                 keyFor demo q = Inr k \<and> at_index demo q = Inr val \<and>
                 at_key demo k = Inr val \<and> indexFor demo k = Inr q \<and>
                 keyFor (erase_spec demo 1) (if 1 < q then q - 1 else q) = Inr k \<and>
                 at_index (erase_spec demo 1) (if 1 < q then q - 1 else q) = Inr val \<and>
                 at_key (erase_spec demo 1) k = Inr val \<and>
                 indexFor (erase_spec demo 1) k = Inr (if 1 < q then q - 1 else q))"
    by auto
  from q [rule_format, of 0] o(1,2)
  have b: "keyFor (erase_spec demo 1) 0 = Inr ''memo''"
    "at_index (erase_spec demo 1) 0 = Inr 37"
    "indexFor (erase_spec demo 1) ''memo'' = Inr 0"
    by auto
  from q [rule_format, of 3] o(3,4)
  have a: "keyFor (erase_spec demo 1) 2 = Inr ''bruce''"
    "at_index (erase_spec demo 1) 2 = Inr 3"
    "indexFor (erase_spec demo 1) ''bruce'' = Inr 2"
    by auto
  from inv sz e a b show ?thesis by (intro conjI)
qed

subsection \<open>C9: the three ways to erase agree\<close>

text \<open>
  C9. In a container that satisfies the invariants, for a valid index \<open>i\<close>,
  \<^verbatim>\<open>erase(i)\<close>, \<^verbatim>\<open>erase(keyFor(i))\<close> and \<^verbatim>\<open>fastErase(i, keyFor(i))\<close> all return normally
  and leave one and the same state.
\<close>

theorem erase_index_erase_key_fastErase_agree:
  assumes inv: "invariants s" and i: "0 \<le> i" "i < int (length (om_vector s))"
  shows "\<exists>key s'. keyFor s i = Inr key \<and> size_om s = Inr (int (length (om_vector s))) \<and>
           erase_index T0 s i = (Inr (), s') \<and>
           erase_key T0 s key = (Inr (), s') \<and>
           fastErase T0 s i key = (Inr (), s')"
proof -
  let ?I = "nat i"
  from i have I: "?I < length (om_vector s)" "int ?I = i" by simp_all
  have k: "keyFor s i = Inr (om_vector s ! ?I)"
    using i by (simp add: keyFor_def validateIndex_def)
  have "erase_index T0 s i = (Inr (), erase_spec s ?I)"
    using erase_index_valid [OF inv I(1), of T0] I(2) by simp
  moreover have "erase_key T0 s (om_vector s ! ?I) = (Inr (), erase_spec s ?I)"
    using inv I(1) by (rule erase_key_valid)
  moreover have "fastErase T0 s i (om_vector s ! ?I) = (Inr (), erase_spec s ?I)"
    using fastErase_erase_spec [OF inv I(1), of T0] I(2) by simp
  ultimately show ?thesis using k size_om_valid [OF inv] by blast
qed

theorem erase_index_erase_key_fastErase_agree_witness:
  "invariants demo \<and> keyFor demo 3 = Inr ''bruce'' \<and>
   erase_index 0 demo 3 = erase_key 0 demo ''bruce'' \<and>
   erase_index 0 demo 3 = fastErase 0 demo 3 ''bruce'' \<and>
   fst (erase_index 0 demo 3) = Inr ()"
proof -
  note inv = invariants_demo
  have r: "(0::int) \<le> 3" "3 < int (length (om_vector demo))" by (simp_all add: demo_def)
  have k: "keyFor demo 3 = Inr ''bruce''" by (simp add: demo_eval)
  from erase_index_erase_key_fastErase_agree [OF inv r, of 0] k inv show ?thesis by auto
qed

subsection \<open>C3: renaming keeps value and position\<close>

text \<open>
  C3 asks every rename of a present key to keep the entry's value and position.
  \<^verbatim>\<open>changeKey\<close> does not when \<^verbatim>\<open>newKey\<close> refers to the value stored under \<^verbatim>\<open>oldKey\<close>
  itself, as in \<^verbatim>\<open>m.changeKey("a", m.at("a"))\<close> on a container of strings: the code copies
  the entry before \<^verbatim>\<open>_map.erase(oldKey)\<close> ("save temp copy") but not the new key, and reads
  \<^verbatim>\<open>newKey\<close> after the erasure has destroyed the object it refers to. That is undefined
  behaviour; \<^verbatim>\<open>_map\<close> has lost \<open>a\<close> by then, no key \<open>va\<close> has been registered and
  \<^verbatim>\<open>_vector\<close> still holds \<open>a\<close>. \<^verbatim>\<open>changeKey(0, m.at("a"))\<close> does the same.
\<close>

theorem changeKey_reads_newKey_after_erasing_it:
  "invariants names \<and>
   at_key names ''a'' = Inr ''va'' \<and> indexFor names ''a'' = Inr 0 \<and>
   read_key (om_map names) (Stored ''a'' id) = Some ''va'' \<and>
   changeKey_key [] names ''a'' (Stored ''a'' id) =
     (Inl undefined_behaviour, names\<lparr>om_map := fmupd ''z'' (''z'', 1) fmempty\<rparr>) \<and>
   changeKey_index [] names 0 (Stored ''a'' id) =
     (Inl undefined_behaviour, names\<lparr>om_map := fmupd ''z'' (''z'', 1) fmempty\<rparr>) \<and>
   at_key (names\<lparr>om_map := fmupd ''z'' (''z'', 1) fmempty\<rparr>) ''va'' =
     Inl (KeyNotFoundError ''msa::OrderedMap::at(keyType)'') \<and>
   keyFor (names\<lparr>om_map := fmupd ''z'' (''z'', 1) fmempty\<rparr>) 0 = Inr ''a''"
proof -
  have m: "fmdrop ''a'' (om_map names) = fmupd ''z'' (''z'', 1) fmempty"
    by (simp add: names_def fmdrop_fmupd)
  have e: "exists names ''a''" by (simp add: names_def exists_def)
  have k: "changeKey_key [] names ''a'' (Stored ''a'' id) =
     (Inl undefined_behaviour, names\<lparr>om_map := fmupd ''z'' (''z'', 1) fmempty\<rparr>)"
    using changeKey_key_reference_to_own_value [OF e, of "[]" id] m by simp
  have i: "changeKey_index [] names 0 (Stored ''a'' id) =
      changeKey_key [] names ''a'' (Stored ''a'' id)"
    by (simp add: changeKey_index_def validateIndex_def keyFor_def names_def)
  have o: "at_key names ''a'' = Inr ''va''" "indexFor names ''a'' = Inr 0"
    "read_key (om_map names) (Stored ''a'' id) = Some ''va''"
    "at_key (names\<lparr>om_map := fmupd ''z'' (''z'', 1) fmempty\<rparr>) ''va'' =
       Inl (KeyNotFoundError ''msa::OrderedMap::at(keyType)'')"
    "keyFor (names\<lparr>om_map := fmupd ''z'' (''z'', 1) fmempty\<rparr>) 0 = Inr ''a''"
    by (simp_all add: names_def at_key_def indexFor_def validateKey_def exists_def
        keyFor_def validateIndex_def KeyNotFoundError_def)
  from invariants_names o k i show ?thesis by simp
qed

theorem changeKey_reads_newKey_after_erasing_it_witness:
  "fst (changeKey_key [] names ''a'' (Stored ''a'' id)) = Inl undefined_behaviour \<and>
   fst (changeKey_index [] names 0 (Stored ''a'' id)) = Inl undefined_behaviour"
  using changeKey_reads_newKey_after_erasing_it by simp

text \<open>
  With a new key that is an object outside the container, the rename does what C3 says.
  Let the state satisfy I3 and let \<open>oldKey\<close> be present with value \<open>val\<close> and position
  \<open>pos\<close>. Then \<^verbatim>\<open>changeKey(oldKey, newKey)\<close> returns normally; afterwards \<^verbatim>\<open>at(newKey)\<close> is
  \<open>val\<close>, \<^verbatim>\<open>indexFor(newKey)\<close> is \<open>pos\<close> and \<^verbatim>\<open>keyFor(pos)\<close> is \<open>newKey\<close>. Nothing else
  changes: \<^verbatim>\<open>_map\<close> loses \<open>oldKey\<close> and maps \<open>newKey\<close> to \<open>(val, pos)\<close>, \<^verbatim>\<open>_vector\<close> is
  relabelled at \<open>pos\<close> only. \<^verbatim>\<open>changeKey(j, newKey)\<close> with an index \<open>j\<close> that holds
  \<open>oldKey\<close> does the same. (So does a call whose new key refers to a stored object that
  is neither erased nor assigned to, see \<open>changeKey_key_stable_reference\<close>.)
\<close>

theorem changeKey_keeps_value_and_position:
  assumes i3: "I3 s" and v: "at_key s oldKey = Inr val" and i: "indexFor s oldKey = Inr pos"
  shows "\<exists>s'. changeKey_key T0 s oldKey (Object newKey) = (Inr (), s') \<and>
           at_key s' newKey = Inr val \<and>
           indexFor s' newKey = Inr pos \<and>
           keyFor s' pos = Inr newKey \<and>
           om_map s' = fmupd newKey (val, pos) (fmdrop oldKey (om_map s)) \<and>
           om_vector s' = (om_vector s)[nat pos := newKey] \<and>
           (\<forall>j. 0 \<le> j \<and> j < int (length (om_vector s)) \<and> om_vector s ! nat j = oldKey \<longrightarrow>
              changeKey_index T0 s j (Object newKey) = (Inr (), s'))"
proof -
  let ?s' = "s\<lparr>om_map := fmupd newKey (val, pos) (fmdrop oldKey (om_map s)),
                om_vector := (om_vector s)[nat pos := newKey]\<rparr>"
  from at_key_InrD [OF v] indexFor_InrD [OF i]
  have l: "fmlookup (om_map s) oldKey = Some (val, pos)" by auto
  from I3_position_in_range [OF i3 i]
  have r: "0 \<le> pos" "pos < int (length (om_vector s))" by simp_all
  have c: "changeKey_key T0 s oldKey (Object newKey) = (Inr (), ?s')"
    using l r by (rule changeKey_key_present)
  have a: "at_key ?s' newKey = Inr val"
    by (simp add: at_key_def validateKey_def exists_def)
  have x: "indexFor ?s' newKey = Inr pos"
    by (simp add: indexFor_def validateKey_def exists_def)
  have k: "keyFor ?s' pos = Inr newKey"
    using r by (simp add: keyFor_def validateIndex_def)
  have ci: "changeKey_index T0 s j (Object newKey) = (Inr (), ?s')"
    if "0 \<le> j" "j < int (length (om_vector s))" "om_vector s ! nat j = oldKey" for j
    using that c by (simp add: changeKey_index_def validateIndex_def keyFor_def)
  from c a x k ci show ?thesis by (intro exI [of _ ?s']) simp
qed

theorem changeKey_keeps_value_and_position_witness:
  "I3 demo \<and> at_key demo ''pearl'' = Inr 2 \<and> indexFor demo ''pearl'' = Inr 2 \<and>
   fst (changeKey_key 0 demo ''pearl'' (Object ''pearlikens'')) = Inr () \<and>
   at_key (snd (changeKey_key 0 demo ''pearl'' (Object ''pearlikens''))) ''pearlikens'' = Inr 2 \<and>
   indexFor (snd (changeKey_key 0 demo ''pearl'' (Object ''pearlikens''))) ''pearlikens'' = Inr 2 \<and>
   om_vector (snd (changeKey_key 0 demo ''pearl'' (Object ''pearlikens''))) =
     [''memo'', ''jane'', ''pearlikens'', ''bruce''] \<and>
   changeKey_index 0 demo 2 (Object ''pearlikens'') = changeKey_key 0 demo ''pearl'' (Object ''pearlikens'')"
proof -
  have v: "at_key demo ''pearl'' = Inr 2" by (simp add: demo_eval)
  have i: "indexFor demo ''pearl'' = Inr 2" by (simp add: demo_eval)
  have r: "(0::int) \<le> 2" "2 < int (length (om_vector demo))" by (simp_all add: demo_def)
  have n: "om_vector demo ! nat 2 = ''pearl''" "(om_vector demo)[nat 2 := ''pearlikens''] =
      [''memo'', ''jane'', ''pearlikens'', ''bruce'']"
    by (simp_all add: demo_def numeral_2_eq_2)
  have i3: "I3 demo" using invariants_demo by (simp add: invariants_def)
  from changeKey_keeps_value_and_position [OF i3 v i, of 0 "''pearlikens''"] obtain s' where
    s': "changeKey_key 0 demo ''pearl'' (Object ''pearlikens'') = (Inr (), s')"
      "at_key s' ''pearlikens'' = Inr 2" "indexFor s' ''pearlikens'' = Inr 2"
      "om_vector s' = (om_vector demo)[nat 2 := ''pearlikens'']"
      "\<forall>j. 0 \<le> j \<and> j < int (length (om_vector demo)) \<and> om_vector demo ! nat j = ''pearl'' \<longrightarrow>
              changeKey_index 0 demo j (Object ''pearlikens'') = (Inr (), s')"
    by blast
  from s'(5) r n(1) have "changeKey_index 0 demo 2 (Object ''pearlikens'') = (Inr (), s')" by blast
  with s' i3 v i n(2) show ?thesis by simp
qed

subsection \<open>C5: insertions with distinct keys\<close>

text \<open>
  C5. Starting from the empty container, any finite sequence of \<^verbatim>\<open>push_back\<close> calls
  with pairwise distinct keys runs without an exception; afterwards \<^verbatim>\<open>size()\<close> is the
  number of insertions, and \<^verbatim>\<open>keyFor(indexFor(k))\<close> is \<open>k\<close> for every inserted key \<open>k\<close>.
\<close>

theorem distinct_insertions_count_and_round_trip:
  assumes d: "distinct (map fst kvs)"
  shows "\<exists>s'. push_all empty_map kvs = Inr s' \<and>
           size_om s' = Inr (int (length kvs)) \<and>
           (\<forall>k \<in> set (map fst kvs). \<exists>i. indexFor s' k = Inr i \<and> keyFor s' i = Inr k)"
proof -
  have "set (map fst kvs) \<inter> set (om_vector (empty_map :: ('a, 'b) OrderedMap)) = {}"
    by (simp add: empty_map_def)
  from push_all_valid [OF invariants_empty_map d this] obtain s' :: "('a, 'b) OrderedMap" where
    s': "push_all empty_map kvs = Inr s'" "invariants s'" "om_vector s' = map fst kvs"
    by (auto simp: empty_map_def)
  have sz: "size_om s' = Inr (int (length kvs))"
    using size_om_valid [OF s'(2)] s'(3) by simp
  have rt: "\<exists>i. indexFor s' k = Inr i \<and> keyFor s' i = Inr k" if "k \<in> set (map fst kvs)" for k
  proof -
    from that s'(3) obtain q where q: "q < length (om_vector s')" "om_vector s' ! q = k"
      by (metis in_set_conv_nth)
    from invariants_lookup_nth [OF s'(2) q(1)] obtain val where
      "fmlookup (om_map s') (om_vector s' ! q) = Some (val, int q)" by blast
    from observe_entry(1,4) [OF q(1) this] q(2) show ?thesis by auto
  qed
  from s'(1) sz rt show ?thesis by blast
qed

theorem distinct_insertions_count_and_round_trip_witness:
  "distinct (map fst [(''memo'', 37::nat), (''jane'', 27), (''pearl'', 2), (''bruce'', 3)]) \<and>
   push_all empty_map [(''memo'', 37::nat), (''jane'', 27), (''pearl'', 2), (''bruce'', 3)] = Inr demo \<and>
   size_om demo = Inr 4 \<and>
   indexFor demo ''pearl'' = Inr 2 \<and> keyFor demo 2 = Inr ''pearl''"
proof -
  have d: "distinct (map fst [(''memo'', 37::nat), (''jane'', 27), (''pearl'', 2), (''bruce'', 3)])"
    by simp
  have p: "push_all empty_map [(''memo'', 37::nat), (''jane'', 27), (''pearl'', 2), (''bruce'', 3)] = Inr demo"
    by (simp add: empty_map_def demo_eval)
  from distinct_insertions_count_and_round_trip [OF d] p
  have "size_om demo = Inr 4"
    and "\<exists>i. indexFor demo ''pearl'' = Inr i \<and> keyFor demo i = Inr ''pearl''"
    by auto
  moreover have "indexFor demo ''pearl'' = Inr 2" by (simp add: demo_eval)
  ultimately show ?thesis using d p by auto
qed

subsection \<open>C7: \<open>exists\<close> follows insertion, erasure and clearing\<close>

text \<open>
  C7, as amended. \<^verbatim>\<open>exists\<close> is a total test of membership in \<^verbatim>\<open>_map\<close>; it throws
  nothing. It is true of \<open>k\<close> in the state a successful \<^verbatim>\<open>push_back\<close> of \<open>k\<close> leaves,
  and it stays true across every later operation that neither erases \<open>k\<close>, nor renames
  \<open>k\<close>, nor clears the container: any \<^verbatim>\<open>push_back\<close>, a \<^verbatim>\<open>changeKey\<close> whose old key is
  not \<open>k\<close>, an \<^verbatim>\<open>erase\<close> of another key or of an index that does not hold \<open>k\<close>,
  whether the operation returns or throws. In a container satisfying the invariants,
  \<^verbatim>\<open>erase\<close> of a present key, or of a valid index, returns and \<^verbatim>\<open>exists\<close> is false of
  the erased key afterwards. After \<^verbatim>\<open>clear()\<close>, \<^verbatim>\<open>size()\<close> is 0 and \<^verbatim>\<open>exists\<close> is false
  of every key.
\<close>

theorem exists_tracks_membership:
  "(exists s k \<longleftrightarrow> k \<in> fmdom' (om_map s)) \<and>
   (push_back s0 k t = (Inr x, s) \<longrightarrow> exists s k) \<and>
   (exists s k \<longrightarrow>
      exists (snd (push_back s k' t')) k \<and>
      (oldKey \<noteq> k \<longrightarrow> exists (snd (changeKey_key T0 s oldKey newKey)) k) \<and>
      (key \<noteq> k \<longrightarrow> exists (snd (erase_key T0 s key)) k) \<and>
      (\<not> (0 \<le> i \<and> i < int (length (om_vector s)) \<and> om_vector s ! nat i = k) \<longrightarrow>
         exists (snd (changeKey_index T0 s i newKey)) k \<and>
         exists (snd (erase_index T0 s i)) k)) \<and>
   (invariants s \<and> exists s k \<longrightarrow>
      (\<exists>s2. erase_key T0 s k = (Inr (), s2) \<and> \<not> exists s2 k)) \<and>
   (invariants s \<and> 0 \<le> i \<and> i < int (length (om_vector s)) \<longrightarrow>
      (\<exists>s2. erase_index T0 s i = (Inr (), s2) \<and> \<not> exists s2 (om_vector s ! nat i))) \<and>
   size_om (clear s) = Inr 0 \<and> \<not> exists (clear s) k"
proof -
  have a: "exists s k \<longleftrightarrow> k \<in> fmdom' (om_map s)" by (rule exists_iff_dom)
  have b: "push_back s0 k t = (Inr x, s) \<longrightarrow> exists s k"
    by (rule impI) (erule push_back_returned_exists)
  have c: "exists s k \<longrightarrow>
      exists (snd (push_back s k' t')) k \<and>
      (oldKey \<noteq> k \<longrightarrow> exists (snd (changeKey_key T0 s oldKey newKey)) k) \<and>
      (key \<noteq> k \<longrightarrow> exists (snd (erase_key T0 s key)) k) \<and>
      (\<not> (0 \<le> i \<and> i < int (length (om_vector s)) \<and> om_vector s ! nat i = k) \<longrightarrow>
         exists (snd (changeKey_index T0 s i newKey)) k \<and>
         exists (snd (erase_index T0 s i)) k)"
    by (intro impI conjI push_back_keeps_keys changeKey_key_keeps_other_keys
        erase_key_keeps_other_keys changeKey_index_keeps_other_keys
        erase_index_keeps_other_keys) assumption+
  have d: "invariants s \<and> exists s k \<longrightarrow>
      (\<exists>s2. erase_key T0 s k = (Inr (), s2) \<and> \<not> exists s2 k)"
    by (rule impI, erule conjE) (rule erase_key_valid_gone)
  have e: "invariants s \<and> 0 \<le> i \<and> i < int (length (om_vector s)) \<longrightarrow>
      (\<exists>s2. erase_index T0 s i = (Inr (), s2) \<and> \<not> exists s2 (om_vector s ! nat i))"
    by (rule impI, (erule conjE)+) (rule erase_index_valid_gone)
  have f: "size_om (clear s) = Inr 0" "\<not> exists (clear s) k"
    by (simp_all add: clear_def size_om_def exists_def)
  from a b c d e f show ?thesis by (intro conjI)
qed

theorem exists_tracks_membership_witness:
  "push_back demo ''blufo'' 1 = (Inr 1, snd (push_back demo ''blufo'' 1)) \<and>
   invariants (snd (push_back demo ''blufo'' 1)) \<and>
   exists (snd (push_back demo ''blufo'' 1)) ''blufo'' \<and>
   exists (snd (push_back (snd (push_back demo ''blufo'' 1)) ''zed'' 9)) ''blufo'' \<and>
   exists (snd (changeKey_key 0 (snd (push_back demo ''blufo'' 1)) ''memo'' (Object ''mehmet''))) ''blufo'' \<and>
   exists (snd (changeKey_index 0 (snd (push_back demo ''blufo'' 1)) 3 (Object ''mehmet''))) ''blufo'' \<and>
   exists (snd (erase_key 0 (snd (push_back demo ''blufo'' 1)) ''jane'')) ''blufo'' \<and>
   exists (snd (erase_index 0 (snd (push_back demo ''blufo'' 1)) 3)) ''blufo'' \<and>
   fst (erase_key 0 (snd (push_back demo ''blufo'' 1)) ''blufo'') = Inr () \<and>
   \<not> exists (snd (erase_key 0 (snd (push_back demo ''blufo'' 1)) ''blufo'')) ''blufo'' \<and>
   fst (erase_index 0 (snd (push_back demo ''blufo'' 1)) 3) = Inr () \<and>
   \<not> exists (snd (erase_index 0 (snd (push_back demo ''blufo'' 1)) 3)) ''bruce'' \<and>
   size_om (clear (snd (push_back demo ''blufo'' 1))) = Inr 0 \<and>
   \<not> exists (clear (snd (push_back demo ''blufo'' 1))) ''blufo''"
proof -
  define s where "s = snd (push_back demo ''blufo'' 1)"
  have fresh: "\<not> exists demo ''blufo''" by (simp add: demo_def exists_def)
  note pb = push_back_valid [OF invariants_demo fresh, of 1]
  have p: "push_back demo ''blufo'' 1 = (Inr 1, s)" using pb(1) by (simp add: s_def)
  have inv: "invariants s" using pb by (simp add: s_def)
  have v: "om_vector s = [''memo'', ''jane'', ''pearl'', ''bruce'', ''blufo'']"
    using pb(1) by (simp add: s_def demo_def)
  have n: "''memo'' \<noteq> ''blufo''" "''jane'' \<noteq> ''blufo''"
    "\<not> (0 \<le> (3::int) \<and> 3 < int (length (om_vector s)) \<and> om_vector s ! nat 3 = ''blufo'')"
    "0 \<le> (3::int) \<and> 3 < int (length (om_vector s))" "om_vector s ! nat 3 = ''bruce''"
    by (simp_all add: v numeral_3_eq_3)
  note t = exists_tracks_membership
    [where s = s and k = "''blufo''" and ?s0.0 = demo and t = 1 and x = 1 and k' = "''zed''"
       and t' = 9 and oldKey = "''memo''" and ?T0.0 = 0 and newKey = "Object ''mehmet''"
       and key = "''jane''" and i = 3]
  from t p have e: "exists s ''blufo''" by blast
  from t e n have 1:
    "exists (snd (push_back s ''zed'' 9)) ''blufo''"
    "exists (snd (changeKey_key 0 s ''memo'' (Object ''mehmet''))) ''blufo''"
    "exists (snd (changeKey_index 0 s 3 (Object ''mehmet''))) ''blufo''"
    "exists (snd (erase_key 0 s ''jane'')) ''blufo''"
    "exists (snd (erase_index 0 s 3)) ''blufo''"
    "size_om (clear s) = Inr 0" "\<not> exists (clear s) ''blufo''"
    by blast+
  from t e inv obtain s2 where
    "erase_key 0 s ''blufo'' = (Inr (), s2)" "\<not> exists s2 ''blufo''" by blast
  then have 2: "fst (erase_key 0 s ''blufo'') = Inr ()"
    "\<not> exists (snd (erase_key 0 s ''blufo'')) ''blufo''" by simp_all
  from t inv n obtain s3 where
    "erase_index 0 s 3 = (Inr (), s3)" "\<not> exists s3 ''bruce''" by auto
  then have 3: "fst (erase_index 0 s 3) = Inr ()"
    "\<not> exists (snd (erase_index 0 s 3)) ''bruce''" by simp_all
  from p inv e 1 2 3 show ?thesis unfolding s_def by (intro conjI)
qed

text \<open>
  C7 as stated does not hold: \<open>memo\<close> is inserted, and then renamed with
  \<^verbatim>\<open>changeKey\<close>; no \<^verbatim>\<open>erase\<close> and no \<^verbatim>\<open>clear\<close> has been called, yet \<^verbatim>\<open>exists\<close> is false
  of \<open>memo\<close>.
\<close>

theorem exists_until_erased_or_cleared_counterexample:
  "push_back (empty_map :: (string, nat) OrderedMap) ''memo'' 37 =
     (Inr 37, \<lparr>om_map = fmupd ''memo'' (37, 0) fmempty, om_vector = [''memo'']\<rparr>) \<and>
   exists \<lparr>om_map = fmupd ''memo'' (37 :: nat, 0) fmempty, om_vector = [''memo'']\<rparr> ''memo'' \<and>
   changeKey_key 0 \<lparr>om_map = fmupd ''memo'' (37 :: nat, 0) fmempty, om_vector = [''memo'']\<rparr>
       ''memo'' (Object ''mehmet'') =
     (Inr (), \<lparr>om_map = fmupd ''mehmet'' (37, 0) fmempty, om_vector = [''mehmet'']\<rparr>) \<and>
   \<not> exists \<lparr>om_map = fmupd ''mehmet'' (37 :: nat, 0) fmempty, om_vector = [''mehmet'']\<rparr> ''memo''"
  by (simp add: empty_map_def demo_eval fmdrop_fmupd)

subsection \<open>C10: renaming onto a key that is present\<close>

text \<open>
  C10, as amended. In a container satisfying the invariants that holds two distinct keys
  \<open>oldKey\<close> and \<open>newKey\<close>, \<^verbatim>\<open>changeKey(oldKey, newKey)\<close>, called with a new key that is an
  object outside the container, returns normally. It leaves
  \<^verbatim>\<open>_map\<close> with exactly one entry fewer than \<^verbatim>\<open>_vector\<close>: the entry of \<open>newKey\<close> now
  holds what \<open>oldKey\<close> had, and \<open>newKey\<close> stands twice in \<^verbatim>\<open>_vector\<close>. The next call of
  \<^verbatim>\<open>size()\<close> throws the internal-invariant error, and so does the next \<^verbatim>\<open>push_back\<close> of
  an absent key and the next \<^verbatim>\<open>erase\<close>, by key or by index, of an entry other than
  \<open>newKey\<close>. The next \<^verbatim>\<open>erase\<close> of \<open>newKey\<close>, by key or at either of its two positions,
  however, returns normally.
\<close>

theorem rename_onto_present_key_desynchronises:
  assumes inv: "invariants s" and eo: "exists s oldKey" and en: "exists s newKey"
    and ne: "oldKey \<noteq> newKey"
  shows "\<exists>s1. changeKey_key T0 s oldKey (Object newKey) = (Inr (), s1) \<and>
           card (fmdom' (om_map s1)) + 1 = length (om_vector s1) \<and>
           fmlookup (om_map s1) newKey = fmlookup (om_map s) oldKey \<and>
           count_list (om_vector s1) newKey = 2 \<and>
           size_om s1 = Inl InternalInvariantError \<and>
           (\<forall>k t. \<not> exists s1 k \<longrightarrow> fst (push_back s1 k t) = Inl InternalInvariantError) \<and>
           (\<forall>k. exists s1 k \<and> k \<noteq> newKey \<longrightarrow>
              fst (erase_key T0 s1 k) = Inl InternalInvariantError) \<and>
           (\<forall>i. 0 \<le> i \<and> i < int (length (om_vector s1)) \<and> om_vector s1 ! nat i \<noteq> newKey \<longrightarrow>
              fst (erase_index T0 s1 i) = Inl InternalInvariantError) \<and>
           fst (erase_key T0 s1 newKey) = Inr () \<and>
           (\<forall>i. 0 \<le> i \<and> i < int (length (om_vector s1)) \<and> om_vector s1 ! nat i = newKey \<longrightarrow>
              fst (erase_index T0 s1 i) = Inr ())"
proof -
  from eo obtain vo po where lo: "fmlookup (om_map s) oldKey = Some (vo, po)"
    by (auto simp: exists_def)
  from en obtain vn pn where ln: "fmlookup (om_map s) newKey = Some (vn, pn)"
    by (auto simp: exists_def)
  define s1 where "s1 = s\<lparr>om_map := fmupd newKey (vo, po) (fmdrop oldKey (om_map s)),
                           om_vector := (om_vector s)[nat po := newKey]\<rparr>"
  note rn = rename_onto_present [OF inv lo ln ne s1_def]
  note o = invariants_lookup_pos [OF inv lo]
  have v1: "om_vector s1 = (om_vector s)[nat po := newKey]" by (simp add: s1_def)
  have l1: "fmlookup (om_map s1) newKey = fmlookup (om_map s) oldKey"
    using lo by (simp add: s1_def)
  have pb: "fst (push_back s1 k t) = Inl InternalInvariantError" if "\<not> exists s1 k" for k t
    using rn(3) that by (rule push_back_after_bad_rename)
  have other: "fst (case fastErase T0 s1 (int q) (om_vector s ! q) of
                  (Inl e, s2) \<Rightarrow> (Inl e, s2)
                | (Inr u, s2) \<Rightarrow>
                    (case size_om s2 of Inl e \<Rightarrow> (Inl e, s2) | Inr n \<Rightarrow> (Inr (), s2))) =
               Inl InternalInvariantError"
    if q: "q < length (om_vector s)" and kn: "om_vector s ! q \<noteq> newKey" "om_vector s ! q \<noteq> oldKey"
    for q
  proof -
    from erase_other_after_bad_rename [OF inv lo ln ne s1_def q refl kn, where ?T0.0 = T0]
    obtain r where "fastErase T0 s1 (int q) (om_vector s ! q) = (Inr (), r)"
      "size_om r = Inl InternalInvariantError" by blast
    then show ?thesis by simp
  qed
  have ek: "fst (erase_key T0 s1 k) = Inl InternalInvariantError"
    if k: "exists s1 k" "k \<noteq> newKey" for k
  proof -
    from k have "k \<in> fmdom' (om_map s) - {oldKey}" using rn(2) by (simp add: exists_iff_dom)
    then have kne: "k \<noteq> oldKey" and kd: "k \<in> fmdom' (om_map s)" by simp_all
    from kd obtain v3 p3 where l3: "fmlookup (om_map s) k = Some (v3, p3)"
      by (auto simp: fmlookup_dom'_iff)
    note p = invariants_lookup_pos [OF inv l3]
    have l3': "fmlookup (om_map s1) k = Some (v3, p3)"
      using l3 k(2) kne by (simp add: s1_def)
    have q: "nat p3 < length (om_vector s)" "om_vector s ! nat p3 = k" "int (nat p3) = p3"
      using p by simp_all
    from other [OF q(1)] q(2,3) k(2) kne erase_key_unfold [OF l3', where ?T0.0 = T0]
    show ?thesis by simp
  qed
  have ei: "fst (erase_index T0 s1 i) = Inl InternalInvariantError"
    if i: "0 \<le> i" "i < int (length (om_vector s1))" "om_vector s1 ! nat i \<noteq> newKey" for i
  proof -
    have q: "nat i < length (om_vector s)" "int (nat i) = i" using i(1,2) by (simp_all add: v1)
    have npo: "nat i \<noteq> nat po" using i(3) q(1) by (auto simp: v1)
    then have same: "om_vector s1 ! nat i = om_vector s ! nat i" by (simp add: v1)
    have "nat po < length (om_vector s)" using o by simp
    then have "om_vector s ! nat i \<noteq> om_vector s ! nat po"
      using npo q(1) invariants_distinct [OF inv] by (simp add: nth_eq_iff_index_eq)
    then have kne: "om_vector s ! nat i \<noteq> oldKey" using o by simp
    have kn: "om_vector s ! nat i \<noteq> newKey" using i(3) same by simp
    from other [OF q(1) kn kne] q(2) same erase_index_unfold [OF i(1,2), where ?T0.0 = T0]
    show ?thesis by simp
  qed
  have en': "fst (erase_key T0 s1 newKey) = Inr ()"
    using inv lo ln ne s1_def by (rule erase_new_after_bad_rename)
  have p6: "\<forall>k t. \<not> exists s1 k \<longrightarrow> fst (push_back s1 k t) = Inl InternalInvariantError"
    using pb by simp
  have p7: "\<forall>k. exists s1 k \<and> k \<noteq> newKey \<longrightarrow>
              fst (erase_key T0 s1 k) = Inl InternalInvariantError"
    using ek by simp
  have p8: "\<forall>i. 0 \<le> i \<and> i < int (length (om_vector s1)) \<and> om_vector s1 ! nat i \<noteq> newKey \<longrightarrow>
              fst (erase_index T0 s1 i) = Inl InternalInvariantError"
    using ei by simp
  have p9: "\<forall>i. 0 \<le> i \<and> i < int (length (om_vector s1)) \<and> om_vector s1 ! nat i = newKey \<longrightarrow>
              fst (erase_index T0 s1 i) = Inr ()"
    using erase_index_new_after_bad_rename [OF inv lo ln ne s1_def, where ?T0.0 = T0] by simp
  show ?thesis
    by (rule exI [of _ s1]) (intro conjI rn(1) rn(3) l1 rn(4) rn(5) p6 p7 p8 en' p9)
qed

theorem rename_onto_present_key_desynchronises_witness:
  "invariants demo \<and> exists demo ''memo'' \<and> exists demo ''jane'' \<and> ''memo'' \<noteq> ''jane'' \<and>
   changeKey_key 0 demo ''memo'' (Object ''jane'') = (Inr (), aliased) \<and>
   card (fmdom' (om_map aliased)) + 1 = length (om_vector aliased) \<and>
   fmlookup (om_map aliased) ''jane'' = fmlookup (om_map demo) ''memo'' \<and>
   count_list (om_vector aliased) ''jane'' = 2 \<and>
   size_om aliased = Inl InternalInvariantError \<and>
   fst (push_back aliased ''memo'' 38) = Inl InternalInvariantError \<and>
   fst (erase_key 0 aliased ''pearl'') = Inl InternalInvariantError \<and>
   fst (erase_index 0 aliased 3) = Inl InternalInvariantError \<and>
   fst (erase_key 0 aliased ''jane'') = Inr () \<and>
   fst (erase_index 0 aliased 1) = Inr ()"
proof -
  have e: "exists demo ''memo''" "exists demo ''jane''" by (simp_all add: demo_def exists_def)
  have n: "''memo'' \<noteq> ''jane''" by simp
  have h: "\<not> exists aliased ''memo''" "exists aliased ''pearl'' \<and> ''pearl'' \<noteq> ''jane''"
    "0 \<le> (3::int) \<and> 3 < int (length (om_vector aliased)) \<and> om_vector aliased ! nat 3 \<noteq> ''jane''"
    "0 \<le> (1::int) \<and> 1 < int (length (om_vector aliased)) \<and> om_vector aliased ! nat 1 = ''jane''"
    by (simp_all add: aliased_def exists_def numeral_3_eq_3)
  from rename_onto_present_key_desynchronises [OF invariants_demo e n, of 0]
    changeKey_key_demo_aliased
  have r: "card (fmdom' (om_map aliased)) + 1 = length (om_vector aliased)"
    "fmlookup (om_map aliased) ''jane'' = fmlookup (om_map demo) ''memo''"
    "count_list (om_vector aliased) ''jane'' = 2"
    "size_om aliased = Inl InternalInvariantError"
    "\<forall>k t. \<not> exists aliased k \<longrightarrow> fst (push_back aliased k t) = Inl InternalInvariantError"
    "\<forall>k. exists aliased k \<and> k \<noteq> ''jane'' \<longrightarrow>
        fst (erase_key 0 aliased k) = Inl InternalInvariantError"
    "\<forall>i. 0 \<le> i \<and> i < int (length (om_vector aliased)) \<and> om_vector aliased ! nat i \<noteq> ''jane'' \<longrightarrow>
        fst (erase_index 0 aliased i) = Inl InternalInvariantError"
    "fst (erase_key 0 aliased ''jane'') = Inr ()"
    "\<forall>i. 0 \<le> i \<and> i < int (length (om_vector aliased)) \<and> om_vector aliased ! nat i = ''jane'' \<longrightarrow>
        fst (erase_index 0 aliased i) = Inr ()"
    by simp_all
  from r(5) h(1) have a: "fst (push_back aliased ''memo'' 38) = Inl InternalInvariantError"
    by blast
  from r(6) h(2) have b: "fst (erase_key 0 aliased ''pearl'') = Inl InternalInvariantError"
    by blast
  from r(7) h(3) have c: "fst (erase_index 0 aliased 3) = Inl InternalInvariantError"
    by blast
  from r(9) h(4) have d: "fst (erase_index 0 aliased 1) = Inr ()"
    by blast
  from invariants_demo e n changeKey_key_demo_aliased r(1-4,8) a b c d show ?thesis
    by (intro conjI)
qed

text \<open>
  C10 as stated does not hold, for two reasons. Not every operation that calls
  \<^verbatim>\<open>size()\<close> fails next: after \<^verbatim>\<open>changeKey("memo", "jane")\<close> the call \<^verbatim>\<open>erase("jane")\<close> runs
  \<^verbatim>\<open>size()\<close> and returns normally, because \<^verbatim>\<open>updateMapIndices\<close> has put \<open>jane\<close> back
  into \<^verbatim>\<open>_map\<close> with a value-initialised value (here 0): the two sizes agree again. And
  the new key does not always stand twice in \<^verbatim>\<open>_vector\<close>: on the container of strings,
  \<^verbatim>\<open>changeKey("a", m.at("z"))\<close> passes a reference to the value stored under \<open>z\<close>, which
  \<^verbatim>\<open>_map[newKey] = t\<close> overwrites with \<open>va\<close> before \<^verbatim>\<open>_vector\<close> is relabelled with it.
\<close>

theorem next_operation_fails_counterexample:
  "invariants demo \<and> exists demo ''memo'' \<and> exists demo ''jane'' \<and> ''memo'' \<noteq> ''jane'' \<and>
   changeKey_key 0 demo ''memo'' (Object ''jane'') = (Inr (), aliased) \<and>
   size_om aliased = Inl InternalInvariantError \<and>
   erase_key 0 aliased ''jane'' =
     (Inr (),
      \<lparr>om_map = fmupd ''bruce'' (3, 2) (fmupd ''pearl'' (2, 1) (fmupd ''jane'' (0, 0) fmempty)),
       om_vector = [''jane'', ''pearl'', ''bruce'']\<rparr>) \<and>
   invariants names \<and> exists names ''a'' \<and> exists names ''z'' \<and> ''a'' \<noteq> ''z'' \<and>
   read_key (om_map names) (Stored ''z'' id) = Some ''z'' \<and>
   changeKey_key [] names ''a'' (Stored ''z'' id) =
     (Inr (), \<lparr>om_map = fmupd ''z'' (''va'', 0) fmempty, om_vector = [''va'', ''z'']\<rparr>) \<and>
   count_list [''va'', ''z''] ''z'' = 1"
proof -
  have "exists demo ''memo''" "exists demo ''jane''" by (simp_all add: demo_def exists_def)
  moreover have "size_om aliased = Inl InternalInvariantError"
    by (simp add: aliased_def size_om_def InternalInvariantError_def card_insert_if)
  moreover have "exists names ''a''" "exists names ''z''"
    "read_key (om_map names) (Stored ''z'' id) = Some ''z''"
    by (simp_all add: names_def exists_def)
  ultimately show ?thesis
    using invariants_demo changeKey_key_demo_aliased erase_key_aliased invariants_names
      changeKey_key_names_z
    by simp
qed

subsection \<open>C1: the invariants across the public operations\<close>

text \<open>
  C1 asks every public operation to lead from a state satisfying I1 to I4 to another
  such state, or to fail without mutation (\<open>transition_ok\<close>). \<^verbatim>\<open>changeKey\<close> does neither
  when the new key is already present: on the example container, which satisfies the
  invariants, \<^verbatim>\<open>changeKey("memo", "jane")\<close> returns normally, and the state it leaves
  differs from the one before and violates I1, I2 and I4.
\<close>

theorem changeKey_onto_present_key_breaks_invariants:
  "invariants demo \<and> exists demo ''memo'' \<and> exists demo ''jane'' \<and>
   changeKey_key 0 demo ''memo'' (Object ''jane'') = (Inr (), aliased) \<and>
   aliased \<noteq> demo \<and> \<not> I1 aliased \<and> \<not> I2 aliased \<and> \<not> I4 aliased \<and> \<not> invariants aliased \<and>
   \<not> transition_ok demo (changeKey_key 0 demo ''memo'' (Object ''jane''))"
proof -
  have "aliased \<noteq> demo"
  proof
    assume "aliased = demo"
    then have "om_vector aliased = om_vector demo" by simp
    then show False by (simp add: aliased_def demo_def)
  qed
  moreover have i1: "\<not> I1 aliased" by (simp add: I1_def aliased_def card_insert_if)
  moreover have "\<not> I4 aliased" by (simp add: I4_def aliased_def)
  moreover have "\<not> I2 aliased"
  proof
    assume "I2 aliased"
    moreover have "1 < length (om_vector aliased)" by (simp add: aliased_def)
    ultimately
    have "map_option snd (fmlookup (om_map aliased) (om_vector aliased ! 1)) = Some (int 1)"
      unfolding I2_def by blast
    then show False by (simp add: aliased_def)
  qed
  moreover have "exists demo ''memo''" "exists demo ''jane''"
    by (simp_all add: demo_def exists_def)
  moreover have "\<not> transition_ok demo (changeKey_key 0 demo ''memo'' (Object ''jane''))"
    using i1 by (simp add: transition_ok_def changeKey_key_demo_aliased invariants_def)
  ultimately show ?thesis
    using invariants_demo changeKey_key_demo_aliased by (simp add: invariants_def)
qed

theorem changeKey_onto_present_key_breaks_invariants_witness:
  "\<not> invariants (snd (changeKey_key 0 demo ''memo'' (Object ''jane'')))"
  using changeKey_onto_present_key_breaks_invariants by simp

text \<open>
  With new keys that are objects outside the container, that is the only way the public
  operations leave the invariants. From a state satisfying them, \<^verbatim>\<open>push_back\<close>, \<^verbatim>\<open>erase\<close>
  by key or by index and \<^verbatim>\<open>clear\<close> always, and \<^verbatim>\<open>changeKey\<close> whenever it is not asked to
  rename an entry onto another key that is present, either return in a state satisfying
  the invariants or throw and leave the state as it was. (\<^verbatim>\<open>size\<close>, \<^verbatim>\<open>at\<close>, \<^verbatim>\<open>keyFor\<close>,
  \<^verbatim>\<open>indexFor\<close> and \<^verbatim>\<open>exists\<close> assign nothing.)
\<close>

theorem operations_keep_invariants_unless_renamed_onto_present_key:
  assumes inv: "invariants s"
  shows "transition_ok s (push_back s key t) \<and>
         (\<not> (exists s oldKey \<and> exists s newKey \<and> oldKey \<noteq> newKey) \<longrightarrow>
            transition_ok s (changeKey_key T0 s oldKey (Object newKey))) \<and>
         (\<not> (0 \<le> i \<and> i < int (length (om_vector s)) \<and> exists s newKey \<and>
              om_vector s ! nat i \<noteq> newKey) \<longrightarrow>
            transition_ok s (changeKey_index T0 s i (Object newKey))) \<and>
         transition_ok s (erase_key T0 s key) \<and>
         transition_ok s (erase_index T0 s i) \<and>
         invariants (clear s)"
  using inv
  by (intro conjI impI push_back_transition_ok changeKey_key_transition_ok
      changeKey_index_transition_ok erase_key_transition_ok erase_index_transition_ok
      invariants_clear)

theorem operations_keep_invariants_unless_renamed_onto_present_key_witness:
  "invariants demo \<and>
   transition_ok demo (push_back demo ''blufo'' 1) \<and>
   transition_ok demo (push_back demo ''jane'' 1) \<and>
   \<not> (exists demo ''pearl'' \<and> exists demo ''pearlikens'' \<and> ''pearl'' \<noteq> ''pearlikens'') \<and>
   transition_ok demo (changeKey_key 0 demo ''pearl'' (Object ''pearlikens'')) \<and>
   \<not> (0 \<le> (0::int) \<and> 0 < int (length (om_vector demo)) \<and> exists demo ''mehmet'' \<and>
        om_vector demo ! nat 0 \<noteq> ''mehmet'') \<and>
   transition_ok demo (changeKey_index 0 demo 0 (Object ''mehmet'')) \<and>
   transition_ok demo (erase_key 0 demo ''bruce'') \<and>
   transition_ok demo (erase_index 0 demo 1) \<and>
   invariants (clear demo)"
proof -
  have a: "\<not> (exists demo ''pearl'' \<and> exists demo ''pearlikens'' \<and> ''pearl'' \<noteq> ''pearlikens'')"
    by (simp add: demo_def exists_def)
  have b: "\<not> (0 \<le> (0::int) \<and> 0 < int (length (om_vector demo)) \<and> exists demo ''mehmet'' \<and>
        om_vector demo ! nat 0 \<noteq> ''mehmet'')"
    by (simp add: demo_def exists_def)
  note t = operations_keep_invariants_unless_renamed_onto_present_key [OF invariants_demo]
  from t [of "''blufo''" 1 "''pearl''" "''pearlikens''" 0 0]
       t [of "''jane''" 1 "''pearl''" "''pearlikens''" 0 0]
       t [of "''bruce''" 1 "''pearl''" "''mehmet''" 0 0]
       t [of "''bruce''" 1 "''pearl''" "''mehmet''" 0 1]
       a b invariants_demo
  show ?thesis by blast
qed

end
